theory Spec2Isabelle
  imports
    Complex_Main
    "HOL-Library.AList"
    "HOL-Library.Char_ord"
    "HOL-Library.List_Lexorder"
    "HOL-Library.Sublist"
    "HOL-Library.Multiset"
begin

section \<open>JavaScript values\<close>

text \<open>
  Rows are untyped records from field names to scalars. Numbers are kept exact
  (rationals plus the two infinities and NaN): rounding of IEEE doubles and the
  negative zero are not represented, which is exact for the integers used below.
\<close>

datatype jsnum = Num rat | PosInf | NegInf | NaN

datatype jsval = JUndefined | JNull | JBool bool | JNum jsnum | JStr string

type_synonym row = "(string \<times> jsval) list"

fun num_add :: "jsnum \<Rightarrow> jsnum \<Rightarrow> jsnum" where
  "num_add (Num a) (Num b) = Num (a + b)"
| "num_add NaN _ = NaN"
| "num_add _ NaN = NaN"
| "num_add PosInf NegInf = NaN"
| "num_add NegInf PosInf = NaN"
| "num_add PosInf _ = PosInf"
| "num_add _ PosInf = PosInf"
| "num_add NegInf _ = NegInf"
| "num_add _ NegInf = NegInf"

fun num_less :: "jsnum \<Rightarrow> jsnum \<Rightarrow> bool" where
  "num_less (Num a) (Num b) = (a < b)"
| "num_less NaN _ = False"
| "num_less _ NaN = False"
| "num_less NegInf NegInf = False"
| "num_less NegInf _ = True"
| "num_less _ NegInf = False"
| "num_less PosInf _ = False"
| "num_less _ PosInf = True"

fun num_eq :: "jsnum \<Rightarrow> jsnum \<Rightarrow> bool" where
  "num_eq NaN _ = False"
| "num_eq _ NaN = False"
| "num_eq a b = (a = b)"

definition num_le :: "jsnum \<Rightarrow> jsnum \<Rightarrow> bool" where
  "num_le a b = (num_less a b \<or> num_eq a b)"

text \<open>Division of a number by a positive array length.\<close>

fun num_div_len :: "jsnum \<Rightarrow> nat \<Rightarrow> jsnum" where
  "num_div_len (Num a) n = Num (a / of_nat n)"
| "num_div_len x n = x"

fun min2 :: "jsnum \<Rightarrow> jsnum \<Rightarrow> jsnum" where
  "min2 NaN _ = NaN"
| "min2 _ NaN = NaN"
| "min2 a b = (if num_less b a then b else a)"

fun max2 :: "jsnum \<Rightarrow> jsnum \<Rightarrow> jsnum" where
  "max2 NaN _ = NaN"
| "max2 _ NaN = NaN"
| "max2 a b = (if num_less a b then b else a)"

text \<open>\<open>Math.min(...xs)\<close> and \<open>Math.max(...xs)\<close>.\<close>

definition Math_min :: "jsnum list \<Rightarrow> jsnum" where
  "Math_min xs = foldl min2 PosInf xs"

definition Math_max :: "jsnum list \<Rightarrow> jsnum" where
  "Math_max xs = foldl max2 NegInf xs"

text \<open>
  The parts of the JavaScript runtime that the transform library calls: conversion
  between strings and numbers, evaluation of a generated expression (\<open>None\<close> when it
  throws), \<open>new Date\<close>, and the first match of a regular expression (\<open>None\<close> when
  there is no match or the pattern is rejected).
\<close>

record js_runtime =
  stringToNumber :: "string \<Rightarrow> jsnum"
  numberToString :: "jsnum \<Rightarrow> string"
  evaluateExpression :: "string \<Rightarrow> row \<Rightarrow> jsval option"
  newDate :: "jsval \<Rightarrow> jsval"
  regExpMatch :: "string \<Rightarrow> string \<Rightarrow> string option"

text \<open>\<open>Number(v)\<close>, \<open>String(v)\<close>, \<open>Boolean(v)\<close> and \<open>a == b\<close> on scalars.\<close>

fun toNumber :: "('z js_runtime_scheme) \<Rightarrow> jsval \<Rightarrow> jsnum" where
  "toNumber env JUndefined = NaN"
| "toNumber env JNull = Num 0"
| "toNumber env (JBool b) = (if b then Num 1 else Num 0)"
| "toNumber env (JNum n) = n"
| "toNumber env (JStr s) = stringToNumber env s"

fun toString :: "('z js_runtime_scheme) \<Rightarrow> jsval \<Rightarrow> string" where
  "toString env JUndefined = ''undefined''"
| "toString env JNull = ''null''"
| "toString env (JBool b) = (if b then ''true'' else ''false'')"
| "toString env (JNum n) = numberToString env n"
| "toString env (JStr s) = s"

fun toBoolean :: "jsval \<Rightarrow> bool" where
  "toBoolean JUndefined = False"
| "toBoolean JNull = False"
| "toBoolean (JBool b) = b"
| "toBoolean (JNum n) = (n \<noteq> NaN \<and> n \<noteq> Num 0)"
| "toBoolean (JStr s) = (s \<noteq> [])"

fun looseEq :: "('z js_runtime_scheme) \<Rightarrow> jsval \<Rightarrow> jsval \<Rightarrow> bool" where
  "looseEq env JUndefined b = (b = JUndefined \<or> b = JNull)"
| "looseEq env JNull b = (b = JUndefined \<or> b = JNull)"
| "looseEq env (JNum x) (JNum y) = num_eq x y"
| "looseEq env (JNum x) (JStr t) = num_eq x (stringToNumber env t)"
| "looseEq env (JNum x) (JBool c) = num_eq x (toNumber env (JBool c))"
| "looseEq env (JNum x) b = False"
| "looseEq env (JStr s) (JStr t) = (s = t)"
| "looseEq env (JStr s) (JNum y) = num_eq (stringToNumber env s) y"
| "looseEq env (JStr s) (JBool c) = num_eq (stringToNumber env s) (toNumber env (JBool c))"
| "looseEq env (JStr s) b = False"
| "looseEq env (JBool a) (JBool c) = (a = c)"
| "looseEq env (JBool a) (JNum y) = num_eq (toNumber env (JBool a)) y"
| "looseEq env (JBool a) (JStr t) = num_eq (toNumber env (JBool a)) (stringToNumber env t)"
| "looseEq env (JBool a) b = False"

text \<open>
  Property read \<open>row[field]\<close>: a missing field reads as \<open>undefined\<close>. A row is the list of
  its own fields; the members a row object inherits (\<open>row['constructor']\<close>, \<open>row['toString']\<close>)
  are not rows' data and a field name that reads one of them is not covered.
\<close>

definition getField :: "row \<Rightarrow> string \<Rightarrow> jsval" where
  "getField r f = (case map_of r f of None \<Rightarrow> JUndefined | Some v \<Rightarrow> v)"

text \<open>Truthiness of an optional string (\<open>undefined\<close> and \<open>''\<close> are falsy).\<close>

definition truthyStr :: "string option \<Rightarrow> bool" where
  "truthyStr s = (case s of None \<Rightarrow> False | Some t \<Rightarrow> t \<noteq> [])"

section \<open>Row Transform Library (dataTransform.ts)\<close>

record FilterCondition =
  fc_field :: string
  fc_operator :: string
  fc_value :: jsval

record TransformOperation =
  op_type :: string
  sourceField :: "string option"
  targetField :: "string option"
  expression :: "string option"
  dataType :: "string option"
  dropFields :: "string list option"

record AggregationOperation =
  agg_field :: string
  agg_function :: string
  agg_alias :: string

subsection \<open>filter\<close>

definition testCondition :: "('z js_runtime_scheme) \<Rightarrow> row \<Rightarrow> FilterCondition \<Rightarrow> bool" where
  "testCondition env r c =
    (let v = getField r (fc_field c); targetValue = fc_value c; opr = fc_operator c in
     if opr = ''eq'' then looseEq env v targetValue
     else if opr = ''ne'' then \<not> looseEq env v targetValue
     else if opr = ''gt'' then num_less (toNumber env targetValue) (toNumber env v)
     else if opr = ''gte'' then num_le (toNumber env targetValue) (toNumber env v)
     else if opr = ''lt'' then num_less (toNumber env v) (toNumber env targetValue)
     else if opr = ''lte'' then num_le (toNumber env v) (toNumber env targetValue)
     else if opr = ''contains'' then sublist (toString env targetValue) (toString env v)
     else if opr = ''startsWith'' then prefix (toString env targetValue) (toString env v)
     else if opr = ''endsWith'' then suffix (toString env targetValue) (toString env v)
     else False)"

definition DataTransform_filter ::
  "('z js_runtime_scheme) \<Rightarrow> row list \<Rightarrow> FilterCondition list \<Rightarrow> row list" where
  "DataTransform_filter env data conditions =
    (if conditions = [] then data
     else filter (\<lambda>r. list_all (testCondition env r) conditions) data)"

subsection \<open>transform\<close>

definition castValue :: "('z js_runtime_scheme) \<Rightarrow> jsval \<Rightarrow> string \<Rightarrow> jsval" where
  "castValue env v dt =
    (if dt = ''string'' then JStr (toString env v)
     else if dt = ''number'' then JNum (toNumber env v)
     else if dt = ''boolean'' then JBool (toBoolean v)
     else if dt = ''date'' then newDate env v
     else v)"

definition extractValue :: "('z js_runtime_scheme) \<Rightarrow> jsval \<Rightarrow> string \<Rightarrow> jsval" where
  "extractValue env v pat =
    (if \<not> toBoolean v then JNull
     else case regExpMatch env pat (toString env v) of None \<Rightarrow> JNull | Some m \<Rightarrow> JStr m)"

text \<open>One operation applied to the copy \<open>newRow\<close>; reads come from the original row.\<close>

definition applyOp :: "('z js_runtime_scheme) \<Rightarrow> row \<Rightarrow> row \<Rightarrow> TransformOperation \<Rightarrow> row" where
  "applyOp env r newRow opn =
    (if op_type opn = ''rename'' then
       (if truthyStr (sourceField opn) \<and> truthyStr (targetField opn)
           \<and> sourceField opn \<noteq> targetField opn
        then AList.delete (the (sourceField opn))
               (AList.update (the (targetField opn)) (getField r (the (sourceField opn))) newRow)
        else newRow)
     else if op_type opn = ''calculate'' then
       (if truthyStr (expression opn) \<and> truthyStr (targetField opn)
        then AList.update (the (targetField opn))
               (case evaluateExpression env (the (expression opn)) r of
                  None \<Rightarrow> JNull | Some v \<Rightarrow> v) newRow
        else newRow)
     else if op_type opn = ''cast'' then
       (if truthyStr (sourceField opn) \<and> truthyStr (dataType opn) \<and> truthyStr (targetField opn)
        then AList.update (the (targetField opn))
               (castValue env (getField r (the (sourceField opn))) (the (dataType opn))) newRow
        else newRow)
     else if op_type opn = ''extract'' then
       (if truthyStr (sourceField opn) \<and> truthyStr (expression opn) \<and> truthyStr (targetField opn)
        then AList.update (the (targetField opn))
               (extractValue env (getField r (the (sourceField opn))) (the (expression opn))) newRow
        else newRow)
     else if op_type opn = ''drop'' then
       (case dropFields opn of
          None \<Rightarrow> newRow
        | Some fs \<Rightarrow> foldl (\<lambda>nr f. AList.delete f nr) newRow fs)
     else newRow)"

definition DataTransform_transform ::
  "('z js_runtime_scheme) \<Rightarrow> row list \<Rightarrow> TransformOperation list \<Rightarrow> row list" where
  "DataTransform_transform env data operations =
    (if operations = [] then data
     else map (\<lambda>r. foldl (applyOp env r) r operations) data)"

subsection \<open>aggregate\<close>

definition isNullish :: "jsval \<Rightarrow> bool" where
  "isNullish v = (v = JNull \<or> v = JUndefined)"

text \<open>The values an aggregation works on: the field of every row, nullish ones removed.\<close>

definition aggValues :: "row list \<Rightarrow> string \<Rightarrow> jsval list" where
  "aggValues data f = filter (\<lambda>v. \<not> isNullish v) (map (\<lambda>r. getField r f) data)"

definition sumValues :: "('z js_runtime_scheme) \<Rightarrow> jsval list \<Rightarrow> jsnum" where
  "sumValues env vs = foldl (\<lambda>acc v. num_add acc (toNumber env v)) (Num 0) vs"

definition performAggregation ::
  "('z js_runtime_scheme) \<Rightarrow> row list \<Rightarrow> AggregationOperation \<Rightarrow> jsval" where
  "performAggregation env data agg =
    (let vs = aggValues data (agg_field agg); fn = agg_function agg in
     if fn = ''sum'' then JNum (sumValues env vs)
     else if fn = ''avg'' then
       (if length vs > 0 then JNum (num_div_len (sumValues env vs) (length vs)) else JNum (Num 0))
     else if fn = ''min'' then
       (if length vs > 0 then JNum (Math_min (map (toNumber env) vs)) else JNull)
     else if fn = ''max'' then
       (if length vs > 0 then JNum (Math_max (map (toNumber env) vs)) else JNull)
     else if fn = ''count'' then JNum (Num (of_nat (length vs)))
     else if fn = ''distinct'' then JNum (Num (of_nat (length (remdups vs))))
     else JNull)"

text \<open>\<open>Array.prototype.join\<close> renders \<open>null\<close> and \<open>undefined\<close> as the empty string.\<close>

definition joinPiece :: "('z js_runtime_scheme) \<Rightarrow> jsval \<Rightarrow> string" where
  "joinPiece env v = (if isNullish v then [] else toString env v)"

fun joinWith :: "string \<Rightarrow> string list \<Rightarrow> string" where
  "joinWith sep [] = []"
| "joinWith sep [s] = s"
| "joinWith sep (s # t # ss) = s @ sep @ joinWith sep (t # ss)"

definition groupKey :: "('z js_runtime_scheme) \<Rightarrow> string list \<Rightarrow> row \<Rightarrow> string" where
  "groupKey env groupBy r = joinWith ''|'' (map (\<lambda>f. joinPiece env (getField r f)) groupBy)"

text \<open>The \<open>groups\<close> map, in insertion order; a row is pushed onto the group of its key.\<close>

definition addToGroup :: "string \<Rightarrow> row \<Rightarrow> (string \<times> row list) list \<Rightarrow> (string \<times> row list) list" where
  "addToGroup k r groups =
    (case map_of groups k of
       None \<Rightarrow> groups @ [(k, [r])]
     | Some g \<Rightarrow> AList.update k (g @ [r]) groups)"

definition groupRows ::
  "('z js_runtime_scheme) \<Rightarrow> string list \<Rightarrow> row list \<Rightarrow> (string \<times> row list) list" where
  "groupRows env groupBy data = foldl (\<lambda>groups r. addToGroup (groupKey env groupBy r) r groups) [] data"

definition addAggregations ::
  "('z js_runtime_scheme) \<Rightarrow> row list \<Rightarrow> AggregationOperation list \<Rightarrow> row \<Rightarrow> row" where
  "addAggregations env data aggregations res =
    foldl (\<lambda>acc agg. AList.update (agg_alias agg) (performAggregation env data agg) acc)
      res aggregations"

text \<open>The result row of one group; a group always holds the row that created it.\<close>

definition groupResult ::
  "('z js_runtime_scheme) \<Rightarrow> string list \<Rightarrow> AggregationOperation list \<Rightarrow> row list \<Rightarrow> row" where
  "groupResult env groupBy aggregations groupData =
    addAggregations env groupData aggregations
      (foldl (\<lambda>acc f. case groupData of [] \<Rightarrow> acc | r0 # _ \<Rightarrow> AList.update f (getField r0 f) acc)
         [] groupBy)"

definition DataTransform_aggregate ::
  "('z js_runtime_scheme) \<Rightarrow> row list \<Rightarrow> string list \<Rightarrow> AggregationOperation list \<Rightarrow> row list" where
  "DataTransform_aggregate env data groupBy aggregations =
    (if groupBy = [] then [addAggregations env data aggregations []]
     else map (\<lambda>(k, groupData). groupResult env groupBy aggregations groupData)
            (groupRows env groupBy data))"


section \<open>Pipeline data model (shared types)\<close>

record NodeConfig =
  databaseId :: "string option"
  tableName :: "string option"
  isInitial :: "bool option"
  conditions :: "FilterCondition list option"
  transformations :: "TransformOperation list option"
  groupBy :: "string list option"
  aggregations :: "AggregationOperation list option"
  joinType :: "string option"
  joinCondition :: "(string \<times> string) option"
  chartType :: "string option"
  xAxis :: "string option"
  yAxis :: "(string + string list) option"
  nameKey :: "string option"
  valueKey :: "string option"
  pieColumn :: "string option"
  pieSortBy :: "string option"
  chartConfig :: "(string \<times> jsval) list option"
  customCode :: "string option"

record PipelineNode =
  node_id :: string
  node_type :: string
  node_label :: string
  node_config :: NodeConfig
  node_position :: "(rat \<times> rat) option"

record PipelineEdge =
  edge_id :: string
  edge_source :: string
  edge_target :: string
  sourceHandle :: "string option"
  targetHandle :: "string option"

record Pipeline =
  pipeline_id :: string
  pipeline_name :: string
  description :: "string option"
  nodes :: "PipelineNode list"
  edges :: "PipelineEdge list"
  createdAt :: int
  updatedAt :: int

record LeafNodeResult =
  leaf_nodeId :: string
  leaf_nodeLabel :: string
  leaf_nodeType :: string
  leaf_data :: "row list"

text \<open>
  Error messages. Several are templates with non-ASCII text around the node label, so
  a message is kept as a constructor with its parameters: the label, and the inner
  message when the inner error is an \<open>Error\<close> (\<open>None\<close> otherwise).
\<close>

datatype message =
    NoDataSourceNode
  | DataSourceNotConfigured string
  | DataFetchFailed string "string option"
  | CustomCodeFailed string
  | UndefinedNodeLabel

record PipelineExecutionResult =
  pipelineId :: string
  status :: string
  res_data :: "row list option"
  leafResults :: "LeafNodeResult list option"
  res_error :: "message option"
  executionTime :: "int option"
  nodeResults :: "(string \<times> row list) list option"
  cached :: bool

section \<open>Cache Store (CacheManager.ts)\<close>

record 'a CacheEntry =
  entry_data :: 'a
  timestamp :: int
  ttl :: int

record CacheConfig =
  maxExecutionResultRows :: int
  maxNodeResultRows :: int
  maxDashboardElementRows :: int
  pipelineExecutionTTL :: int
  nodeMetadataTTL :: int
  dashboardCacheTTL :: int
  maxCacheEntries :: int

definition DEFAULT_CACHE_CONFIG :: CacheConfig where
  "DEFAULT_CACHE_CONFIG =
    \<lparr> maxExecutionResultRows = 1000,
      maxNodeResultRows = 10000,
      maxDashboardElementRows = 500,
      pipelineExecutionTTL = 5 * 60 * 1000,
      nodeMetadataTTL = 30 * 60 * 1000,
      dashboardCacheTTL = 10 * 60 * 1000,
      maxCacheEntries = 100 \<rparr>"

record PipelineExecutionCache =
  pec_pipelineId :: string
  pec_pipelineHash :: string
  pec_nodeResults :: "(string \<times> row list) list"
  pec_leafResults :: "LeafNodeResult list"
  pec_executionTime :: int
  cachedAt :: int

text \<open>
  The cache manager's state that execution touches (its configuration and the
  insertion-ordered map of execution results), together with the number of clock
  readings taken so far.
\<close>

record world =
  config :: CacheConfig
  pipelineExecutionCache :: "(string \<times> PipelineExecutionCache CacheEntry) list"
  ticks :: nat

text \<open>
  The platform of the engine: the runtime above, the user function built from a custom
  node's code and applied to its arguments, the row store, the clock (its k-th
  reading) and the MD5 hex digest of a JSON text, given by what the text records
  (\<open>jsonContent\<close> below).
\<close>

datatype custom_outcome = Threw string | ThrewNonError | ReturnedArray "row list" | ReturnedNonArray

type_synonym normalized = "(string \<times> string \<times> NodeConfig) list \<times> (string \<times> string) list"

record platform = js_runtime +
  userFunction :: "string \<Rightarrow> row list list \<Rightarrow> custom_outcome"
  getDatabaseData :: "string \<Rightarrow> nat \<Rightarrow> nat \<Rightarrow> string option + row list"
  dateNow :: "nat \<Rightarrow> int"
  digest :: "normalized \<Rightarrow> string"

text \<open>\<open>Date.now()\<close>: the next reading of the clock.\<close>

definition now :: "platform \<Rightarrow> world \<Rightarrow> int \<times> world" where
  "now env w = (dateNow env (ticks w), w\<lparr>ticks := Suc (ticks w)\<rparr>)"

text \<open>\<open>xs.slice(0, e)\<close>: a negative end counts from the end of the array.\<close>

definition slice0 :: "'a list \<Rightarrow> int \<Rightarrow> 'a list" where
  "slice0 xs e = (if e < 0 then take (nat (int (length xs) + e)) xs else take (nat e) xs)"

definition normalize :: "Pipeline \<Rightarrow> normalized" where
  "normalize p =
    (map (\<lambda>n. (node_id n, node_type n, node_config n)) (nodes p),
     map (\<lambda>e. (edge_source e, edge_target e)) (edges p))"

text \<open>
  \<open>JSON.stringify\<close> writes a number that is \<open>NaN\<close> or infinite as \<open>null\<close> and leaves out
  a property whose value is \<open>undefined\<close>. The only places of a normalised pipeline that
  hold an arbitrary value are the \<open>value\<close> of a filter condition and the values of
  \<open>chartConfig\<close>; everything else is a string, a boolean or a list of strings, which
  the text records as it is. \<open>jsonContent\<close> is the normalised pipeline as its JSON text
  records it. (An absent \<open>value\<close> is \<open>JUndefined\<close> already. The keys of a record are
  written in one fixed order: the order in which a config object happens to list its
  keys, which the text also shows, is not represented.)
\<close>

fun jsonScalar :: "jsval \<Rightarrow> jsval" where
  "jsonScalar (JNum (Num q)) = JNum (Num q)"
| "jsonScalar (JNum x) = JNull"
| "jsonScalar v = v"

definition jsonConfig :: "NodeConfig \<Rightarrow> NodeConfig" where
  "jsonConfig c =
    c\<lparr> conditions :=
         map_option (map (\<lambda>fc. fc\<lparr>fc_value := jsonScalar (fc_value fc)\<rparr>)) (conditions c),
       chartConfig :=
         map_option (\<lambda>kvs. map (\<lambda>(k, v). (k, jsonScalar v))
                             (filter (\<lambda>(k, v). v \<noteq> JUndefined) kvs)) (chartConfig c) \<rparr>"

definition jsonContent :: "normalized \<Rightarrow> normalized" where
  "jsonContent nf = (map (\<lambda>(i, t, c). (i, t, jsonConfig c)) (fst nf), snd nf)"

text \<open>\<open>md5(JSON.stringify({nodes: ..., edges: ...}))\<close>.\<close>

definition calculatePipelineHash :: "platform \<Rightarrow> Pipeline \<Rightarrow> string" where
  "calculatePipelineHash env p = digest env (jsonContent (normalize p))"

text \<open>Entries sorted by timestamp (the sort is stable); the oldest surplus ones are deleted.\<close>

definition enforceMaxEntries ::
  "CacheConfig \<Rightarrow> (string \<times> 'a CacheEntry) list \<Rightarrow> (string \<times> 'a CacheEntry) list" where
  "enforceMaxEntries cfg cache =
    (if int (length cache) \<le> maxCacheEntries cfg then cache
     else
       let entries = sort_key (\<lambda>(k, e). timestamp e) cache;
           toDelete = slice0 entries (int (length cache) - maxCacheEntries cfg)
       in foldl (\<lambda>c (k, e). AList.delete k c) cache toDelete)"

text \<open>
  \<open>cachePipelineExecution\<close> walks \<open>Object.entries(nodeResults)\<close>; its argument \<open>nr\<close> here
  is that list of entries. The limited copies are assigned into a fresh plain object.
\<close>

definition limitNodeResults :: "CacheConfig \<Rightarrow> (string \<times> row list) list \<Rightarrow> (string \<times> row list) list" where
  "limitNodeResults cfg nr =
    foldl (\<lambda>acc (k, d). AList.update k (slice0 d (maxNodeResultRows cfg)) acc) [] nr"

definition limitLeafResults :: "CacheConfig \<Rightarrow> LeafNodeResult list \<Rightarrow> LeafNodeResult list" where
  "limitLeafResults cfg leafs =
    map (\<lambda>leaf. leaf\<lparr>leaf_data := slice0 (leaf_data leaf) (maxExecutionResultRows cfg)\<rparr>) leafs"

definition cachePipelineExecution ::
  "platform \<Rightarrow> world \<Rightarrow> string \<Rightarrow> string \<Rightarrow> (string \<times> row list) list \<Rightarrow>
     LeafNodeResult list \<Rightarrow> int \<Rightarrow> world" where
  "cachePipelineExecution env w pid h nr leafs execTime =
    (let limitedNodeResults = limitNodeResults (config w) nr;
         limitedLeafResults = limitLeafResults (config w) leafs;
         (t1, w1) = now env w;
         cacheData = \<lparr> pec_pipelineId = pid, pec_pipelineHash = h,
                       pec_nodeResults = limitedNodeResults,
                       pec_leafResults = limitedLeafResults,
                       pec_executionTime = execTime, cachedAt = t1 \<rparr>;
         (t2, w2) = now env w1;
         cache' = AList.update pid
                    \<lparr> entry_data = cacheData, timestamp = t2,
                      ttl = pipelineExecutionTTL (config w) \<rparr>
                    (pipelineExecutionCache w2)
     in w2\<lparr>pipelineExecutionCache := enforceMaxEntries (config w) cache'\<rparr>)"

definition getPipelineExecution ::
  "platform \<Rightarrow> world \<Rightarrow> string \<Rightarrow> string \<Rightarrow> PipelineExecutionCache option \<times> world" where
  "getPipelineExecution env w pid h =
    (case map_of (pipelineExecutionCache w) pid of
       None \<Rightarrow> (None, w)
     | Some entry \<Rightarrow>
         (let (t, w1) = now env w in
          if t - timestamp entry > ttl entry then
            (None, w1\<lparr>pipelineExecutionCache := AList.delete pid (pipelineExecutionCache w1)\<rparr>)
          else if pec_pipelineHash (entry_data entry) \<noteq> h then
            (None, w1\<lparr>pipelineExecutionCache := AList.delete pid (pipelineExecutionCache w1)\<rparr>)
          else (Some (entry_data entry), w1)))"


section \<open>Execution Engine (PipelineEngine)\<close>

subsection \<open>Reachability\<close>

text \<open>\<open>Set.add\<close> on an insertion-ordered set.\<close>

definition setAdd :: "'a \<Rightarrow> 'a list \<Rightarrow> 'a list" where
  "setAdd x s = (if x \<in> set s then s else s @ [x])"

text \<open>
  The closure \<open>visit\<close> of \<open>findReachableNodes\<close> and its \<open>forEach\<close> over the outgoing
  edges. The sets \<open>visited\<close> and \<open>reachable\<close> receive the same insertions, so one
  insertion-ordered list stands for both.
\<close>

function visitR :: "PipelineEdge list \<Rightarrow> string \<Rightarrow> string list \<Rightarrow> string list"
  and visitRs :: "PipelineEdge list \<Rightarrow> PipelineEdge list \<Rightarrow> string list \<Rightarrow> string list"
where
  "visitR es n visited =
     (if n \<in> set visited then visited
      else visitRs es (filter (\<lambda>e. edge_source e = n) es) (visited @ [n]))"
| "visitRs es [] visited = visited"
| "visitRs es (e # outgoing) visited = visitRs es outgoing (visitR es (edge_target e) visited)"
  by pat_completeness auto

lemma visitR_grows_partial:
  "visitR_visitRs_dom (Inl (es, n, visited)) \<Longrightarrow> set visited \<subseteq> set (visitR es n visited)"
  "visitR_visitRs_dom (Inr (es, out, visited)) \<Longrightarrow> set visited \<subseteq> set (visitRs es out visited)"
proof (induction es n visited and es out visited rule: visitR_visitRs.pinduct)
  case (1 es n visited)
  then show ?case by (auto simp: visitR.psimps)
next
  case (2 es visited)
  then show ?case by (simp add: visitRs.psimps)
next
  case (3 es e outgoing visited)
  then show ?case by (auto simp: visitRs.psimps)
qed

definition unvisited :: "PipelineEdge list \<Rightarrow> string list \<Rightarrow> string list \<Rightarrow> nat" where
  "unvisited es extra visited = card ((set (map edge_target es) \<union> set extra) - set visited)"

termination visitR
proof (relation "inv_image (less_than <*lex*> less_than)
   (\<lambda>x. case x of
      Inl (es, n, visited) \<Rightarrow> (unvisited es [n] visited, 0)
    | Inr (es, out, visited) \<Rightarrow> (unvisited es (map edge_target out) visited, Suc (length out)))",
   goal_cases)
  case 1
  then show ?case by (intro wf_inv_image wf_lex_prod wf_less_than)
next
  case (2 es n visited)
  have "(set (map edge_target es) \<union> set (map edge_target (filter (\<lambda>e. edge_source e = n) es)))
          - set (visited @ [n])
        \<subset> (set (map edge_target es) \<union> set [n]) - set visited"
    using 2 by auto
  then have "unvisited es (map edge_target (filter (\<lambda>e. edge_source e = n) es)) (visited @ [n])
      < unvisited es [n] visited"
    unfolding unvisited_def by (intro psubset_card_mono) auto
  then show ?case by simp
next
  case (3 es e outgoing visited)
  have "unvisited es [edge_target e] visited \<le> unvisited es (map edge_target (e # outgoing)) visited"
    unfolding unvisited_def by (intro card_mono) auto
  then show ?case by auto
next
  case (4 es e outgoing visited)
  have "set visited \<subseteq> set (visitR es (edge_target e) visited)"
    using 4 visitR_grows_partial(1) by blast
  then have "unvisited es (map edge_target outgoing) (visitR es (edge_target e) visited)
     \<le> unvisited es (map edge_target (e # outgoing)) visited"
    unfolding unvisited_def by (intro card_mono) auto
  then show ?case by auto
qed

definition findReachableNodes :: "Pipeline \<Rightarrow> string \<Rightarrow> string list" where
  "findReachableNodes p startNodeId = visitR (edges p) startNodeId []"

text \<open>The union over all data source nodes, as built by \<open>execute\<close>.\<close>

definition dataSourceNodes :: "Pipeline \<Rightarrow> PipelineNode list" where
  "dataSourceNodes p = filter (\<lambda>n. node_type n = ''dataSource'') (nodes p)"

definition reachableNodes :: "Pipeline \<Rightarrow> string list" where
  "reachableNodes p =
    foldl (\<lambda>acc dataSourceNode.
             foldl (\<lambda>a nodeId. setAdd nodeId a) acc (findReachableNodes p (node_id dataSourceNode)))
      [] (dataSourceNodes p)"

definition findLeafNodes :: "Pipeline \<Rightarrow> string list \<Rightarrow> string list" where
  "findLeafNodes p reach =
    filter (\<lambda>nodeId. \<not> list_ex (\<lambda>e. edge_source e = nodeId) (edges p)) reach"

subsection \<open>Topological sort\<close>

text \<open>
  The closure \<open>visit\<close> of \<open>topologicalSort\<close> over the state \<open>(visited, result)\<close>, and
  its \<open>forEach\<close> over the incoming edges.
\<close>

function visitT ::
    "PipelineEdge list \<Rightarrow> string list \<Rightarrow> string \<Rightarrow> string list \<times> string list
       \<Rightarrow> string list \<times> string list"
  and visitTs ::
    "PipelineEdge list \<Rightarrow> string list \<Rightarrow> PipelineEdge list \<Rightarrow> string list \<times> string list
       \<Rightarrow> string list \<times> string list"
where
  "visitT es reach n (visited, result) =
     (if n \<in> set visited then (visited, result)
      else if n \<notin> set reach then (visited, result)
      else (case visitTs es reach (filter (\<lambda>e. edge_target e = n) es) (visited @ [n], result) of
              (visited', result') \<Rightarrow> (visited', result' @ [n])))"
| "visitTs es reach [] s = s"
| "visitTs es reach (e # incoming) s =
     visitTs es reach incoming (visitT es reach (edge_source e) s)"
  by pat_completeness auto

lemma visitT_grows_partial:
  "visitT_visitTs_dom (Inl (es, reach, n, s)) \<Longrightarrow> set (fst s) \<subseteq> set (fst (visitT es reach n s))"
  "visitT_visitTs_dom (Inr (es, reach, inc, s)) \<Longrightarrow> set (fst s) \<subseteq> set (fst (visitTs es reach inc s))"
proof (induction es reach n s and es reach inc s rule: visitT_visitTs.pinduct)
  case (1 es reach n visited result)
  then show ?case by (auto simp: visitT.psimps split: prod.splits)
next
  case (2 es reach s)
  then show ?case by (simp add: visitTs.psimps)
next
  case (3 es reach e incoming s)
  then show ?case by (auto simp: visitTs.psimps)
qed

definition pending :: "string list \<Rightarrow> string list \<times> string list \<Rightarrow> nat" where
  "pending reach s = card (set reach - set (fst s))"

termination visitT
proof (relation "inv_image (less_than <*lex*> less_than)
   (\<lambda>x. case x of
      Inl (es, reach, n, s) \<Rightarrow> (pending reach s, 0)
    | Inr (es, reach, inc, s) \<Rightarrow> (pending reach s, Suc (length inc)))",
   goal_cases)
  case 1
  then show ?case by (intro wf_inv_image wf_lex_prod wf_less_than)
next
  case (2 es reach n visited result)
  have "set reach - set (visited @ [n]) \<subset> set reach - set visited"
    using 2 by auto
  then have "pending reach (visited @ [n], result) < pending reach (visited, result)"
    unfolding pending_def by (simp add: psubset_card_mono)
  then show ?case by simp
next
  case (3 es reach e incoming s)
  then show ?case by simp
next
  case (4 es reach e incoming s)
  have "set (fst s) \<subseteq> set (fst (visitT es reach (edge_source e) s))"
    using 4 visitT_grows_partial(1) by blast
  then have "pending reach (visitT es reach (edge_source e) s) \<le> pending reach s"
    unfolding pending_def by (intro card_mono) auto
  then show ?case by auto
qed

definition noIncomingEdges :: "Pipeline \<Rightarrow> string list \<Rightarrow> PipelineNode list" where
  "noIncomingEdges p reach =
    filter (\<lambda>n. node_id n \<in> set reach \<and> \<not> list_ex (\<lambda>e. edge_target e = node_id n) (edges p))
      (nodes p)"

definition topologicalSort :: "Pipeline \<Rightarrow> string list \<Rightarrow> string list" where
  "topologicalSort p reach =
    (let s1 = foldl (\<lambda>s n. visitT (edges p) reach (node_id n) s) ([], []) (noIncomingEdges p reach);
         s2 = foldl (\<lambda>s nodeId. visitT (edges p) reach nodeId s) s1 reach
     in snd s2)"

subsection \<open>Node input\<close>

text \<open>
  A node's input is one row array, or for a custom node with several incoming edges an
  array of row arrays.
\<close>

datatype node_input = Single "row list" | Multi "row list list"

text \<open>
  The node results are a plain object, \<open>const nodeResults = {}\<close>, written by
  \<open>nodeResults[nodeId] = outputData\<close>. For every name but \<open>__proto__\<close> the assignment
  creates the property on the first write and replaces its value, in place, afterwards.
  For the name \<open>__proto__\<close> it calls the inherited setter instead: the array becomes the
  prototype of the object and no property is added. The object is a list of bindings in
  the order of their first assignment, and a binding under the name \<open>__proto__\<close> stands for
  the installed prototype; \<open>AList.update\<close> is the assignment in both cases. The object's own
  properties, which \<open>Object.keys\<close>, \<open>Object.entries\<close> and a serialisation of the result
  see, are the bindings under the other names. (JavaScript enumerates names that are
  array indices first, in numeric order; nothing below depends on the order of the keys.)
\<close>

definition ownEntries :: "(string \<times> row list) list \<Rightarrow> (string \<times> row list) list" where
  "ownEntries nr = filter (\<lambda>(k, d). k \<noteq> ''__proto__'') nr"

definition ownKeys :: "(string \<times> row list) list \<Rightarrow> string list" where
  "ownKeys nr = map fst (ownEntries nr)"

text \<open>
  \<open>nodeResults[id] || []\<close>. Reading \<open>__proto__\<close> gives the installed prototype. A name
  that was never assigned reads as \<open>undefined\<close>, hence \<open>[]\<close>; this holds for the names
  that the object does not inherit (an unassigned \<open>constructor\<close> or \<open>toString\<close>, or
  \<open>__proto__\<close> itself, would read an inherited member, which is no row array: a pipeline
  with an edge from a node so named that has not run is not covered).
\<close>

definition resultOf :: "(string \<times> row list) list \<Rightarrow> string \<Rightarrow> row list" where
  "resultOf nr k = (case map_of nr k of None \<Rightarrow> [] | Some d \<Rightarrow> d)"

text \<open>\<open>edge.targetHandle || 'input-0'\<close>.\<close>

definition handleOf :: "PipelineEdge \<Rightarrow> string" where
  "handleOf e = (if truthyStr (targetHandle e) then the (targetHandle e) else ''input-0'')"

text \<open>
  The copy of the incoming edges sorted with \<open>localeCompare\<close> on the handles. The sort
  is stable; the comparison is taken as the lexicographic order of the character codes,
  which is what the collation gives on handles made of lower-case letters, digits and
  the hyphen.
\<close>

definition sortedEdges :: "PipelineEdge list \<Rightarrow> PipelineEdge list" where
  "sortedEdges incomingEdges = sort_key handleOf incomingEdges"

definition getNodeInputData ::
  "PipelineNode \<Rightarrow> Pipeline \<Rightarrow> (string \<times> row list) list \<Rightarrow> node_input" where
  "getNodeInputData node p nr =
    (let incomingEdges = filter (\<lambda>e. edge_target e = node_id node) (edges p) in
     case incomingEdges of
       [] \<Rightarrow> Single []
     | [e] \<Rightarrow> Single (resultOf nr (edge_source e))
     | e # e' # rest \<Rightarrow>
         if node_type node = ''custom''
         then Multi (map (\<lambda>edge. resultOf nr (edge_source edge)) (sortedEdges incomingEdges))
         else Single (resultOf nr (edge_source e)))"

subsection \<open>Node handlers\<close>

definition executeDataSource :: "platform \<Rightarrow> PipelineNode \<Rightarrow> message + row list" where
  "executeDataSource env node =
    (if \<not> truthyStr (databaseId (node_config node))
     then Inl (DataSourceNotConfigured (node_label node))
     else case getDatabaseData env (the (databaseId (node_config node))) 1 10000 of
            Inl err \<Rightarrow> Inl (DataFetchFailed (node_label node) err)
          | Inr rows \<Rightarrow> Inr rows)"

definition executeFilter :: "platform \<Rightarrow> PipelineNode \<Rightarrow> row list \<Rightarrow> row list" where
  "executeFilter env node inputData =
    (case conditions (node_config node) of
       None \<Rightarrow> inputData
     | Some cs \<Rightarrow> if length cs = 0 then inputData else DataTransform_filter env inputData cs)"

definition executeTransform :: "platform \<Rightarrow> PipelineNode \<Rightarrow> row list \<Rightarrow> row list" where
  "executeTransform env node inputData =
    (case transformations (node_config node) of
       None \<Rightarrow> inputData
     | Some ts \<Rightarrow> if length ts = 0 then inputData else DataTransform_transform env inputData ts)"

definition executeAggregate :: "platform \<Rightarrow> PipelineNode \<Rightarrow> row list \<Rightarrow> row list" where
  "executeAggregate env node inputData =
    (case aggregations (node_config node) of
       None \<Rightarrow> inputData
     | Some aggs \<Rightarrow>
         if length aggs = 0 then inputData
         else DataTransform_aggregate env inputData
                (case groupBy (node_config node) of None \<Rightarrow> [] | Some g \<Rightarrow> g) aggs)"

definition executeJoin :: "PipelineNode \<Rightarrow> row list \<Rightarrow> row list" where
  "executeJoin node inputData =
    (case joinCondition (node_config node) of None \<Rightarrow> inputData | Some jc \<Rightarrow> inputData)"

text \<open>\<open>customCode.trim() === ''\<close> on ASCII white space.\<close>

definition isWhiteSpace :: "char \<Rightarrow> bool" where
  "isWhiteSpace c = (of_char c \<in> {9, 10, 11, 12, 13, 32 :: nat})"

definition blank :: "string \<Rightarrow> bool" where
  "blank s = list_all isWhiteSpace s"

definition executeCustom :: "platform \<Rightarrow> PipelineNode \<Rightarrow> node_input \<Rightarrow> message + row list" where
  "executeCustom env node inputData =
    (if \<not> truthyStr (customCode (node_config node)) \<or> blank (the (customCode (node_config node)))
     then (case inputData of
             Multi inputs \<Rightarrow> (case inputs of [] \<Rightarrow> Inr [] | first # others \<Rightarrow> Inr first)
           | Single rows \<Rightarrow> Inr rows)
     else
       (case userFunction env (the (customCode (node_config node)))
               (case inputData of Multi inputs \<Rightarrow> inputs | Single rows \<Rightarrow> [rows]) of
          ReturnedArray rows \<Rightarrow> Inr rows
        | ReturnedNonArray \<Rightarrow> Inl (CustomCodeFailed ''Custom function must return an array'')
        | Threw m \<Rightarrow> Inl (CustomCodeFailed m)
        | ThrewNonError \<Rightarrow> Inl (CustomCodeFailed ''Unknown error'')))"

text \<open>
  Only a custom node is ever given several inputs (see \<open>getNodeInputData\<close>); the other
  handlers take the single row array.
\<close>

definition singleInput :: "node_input \<Rightarrow> row list" where
  "singleInput inputData = (case inputData of Single rows \<Rightarrow> rows | Multi inputs \<Rightarrow> [])"

definition executeNode :: "platform \<Rightarrow> PipelineNode \<Rightarrow> node_input \<Rightarrow> message + row list" where
  "executeNode env node inputData =
    (if node_type node = ''dataSource'' then executeDataSource env node
     else if node_type node = ''filter'' then Inr (executeFilter env node (singleInput inputData))
     else if node_type node = ''transform'' then Inr (executeTransform env node (singleInput inputData))
     else if node_type node = ''aggregate'' then Inr (executeAggregate env node (singleInput inputData))
     else if node_type node = ''join'' then Inr (executeJoin node (singleInput inputData))
     else if node_type node = ''visualization'' then Inr (singleInput inputData)
     else if node_type node = ''dashboard'' then Inr (singleInput inputData)
     else if node_type node = ''custom'' then executeCustom env node inputData
     else Inr (singleInput inputData))"

subsection \<open>execute\<close>

text \<open>
  The node-execution loop over the execution order; \<open>AList.update\<close> is the assignment
  \<open>nodeResults[nodeId] = outputData\<close> on the plain object (see \<open>ownEntries\<close>).
\<close>

fun runNodes ::
  "platform \<Rightarrow> Pipeline \<Rightarrow> string list \<Rightarrow> (string \<times> row list) list
     \<Rightarrow> message + (string \<times> row list) list" where
  "runNodes env p [] nr = Inr nr"
| "runNodes env p (nodeId # rest) nr =
    (case find (\<lambda>n. node_id n = nodeId) (nodes p) of
       None \<Rightarrow> runNodes env p rest nr
     | Some node \<Rightarrow>
         (case executeNode env node (getNodeInputData node p nr) of
            Inl err \<Rightarrow> Inl err
          | Inr outputData \<Rightarrow> runNodes env p rest (AList.update nodeId outputData nr)))"

text \<open>
  The leaf results; reading the label of a leaf id that names no node throws a
  \<open>TypeError\<close>.
\<close>

fun collectLeafResults ::
  "Pipeline \<Rightarrow> (string \<times> row list) list \<Rightarrow> string list \<Rightarrow> message + LeafNodeResult list" where
  "collectLeafResults p nr [] = Inr []"
| "collectLeafResults p nr (leafId # rest) =
    (case find (\<lambda>n. node_id n = leafId) (nodes p) of
       None \<Rightarrow> Inl UndefinedNodeLabel
     | Some node \<Rightarrow>
         (case collectLeafResults p nr rest of
            Inl err \<Rightarrow> Inl err
          | Inr ls \<Rightarrow>
              Inr (\<lparr> leaf_nodeId = leafId, leaf_nodeLabel = node_label node,
                     leaf_nodeType = node_type node,
                     leaf_data = resultOf nr leafId \<rparr> # ls)))"

text \<open>The body of the \<open>try\<close> block up to the leaf results.\<close>

definition runPipeline ::
  "platform \<Rightarrow> Pipeline \<Rightarrow> message + ((string \<times> row list) list \<times> LeafNodeResult list)" where
  "runPipeline env p =
    (if length (dataSourceNodes p) = 0 then Inl NoDataSourceNode
     else
       let reach = reachableNodes p;
           executionOrder = topologicalSort p reach
       in case runNodes env p executionOrder [] of
            Inl err \<Rightarrow> Inl err
          | Inr nr \<Rightarrow>
              (case collectLeafResults p nr (findLeafNodes p reach) of
                 Inl err \<Rightarrow> Inl err
               | Inr leafs \<Rightarrow> Inr (nr, leafs)))"

definition cachedResult :: "Pipeline \<Rightarrow> PipelineExecutionCache \<Rightarrow> PipelineExecutionResult" where
  "cachedResult p c =
    \<lparr> pipelineId = pipeline_id p, status = ''success'',
      res_data = Some (case pec_leafResults c of [] \<Rightarrow> [] | l # ls \<Rightarrow> leaf_data l),
      leafResults = Some (pec_leafResults c),
      res_error = None,
      executionTime = Some (pec_executionTime c),
      nodeResults = Some (pec_nodeResults c),
      cached = True \<rparr>"

definition successResult ::
  "Pipeline \<Rightarrow> (string \<times> row list) list \<Rightarrow> LeafNodeResult list \<Rightarrow> int \<Rightarrow> PipelineExecutionResult" where
  "successResult p nr leafs t =
    \<lparr> pipelineId = pipeline_id p, status = ''success'',
      res_data = Some (case leafs of [] \<Rightarrow> [] | l # ls \<Rightarrow> leaf_data l),
      leafResults = Some leafs,
      res_error = None,
      executionTime = Some t,
      nodeResults = Some nr,
      cached = False \<rparr>"

definition errorResult :: "Pipeline \<Rightarrow> message \<Rightarrow> int \<Rightarrow> PipelineExecutionResult" where
  "errorResult p err t =
    \<lparr> pipelineId = pipeline_id p, status = ''error'',
      res_data = None, leafResults = None,
      res_error = Some err,
      executionTime = Some t,
      nodeResults = None,
      cached = False \<rparr>"

definition execute :: "platform \<Rightarrow> world \<Rightarrow> Pipeline \<Rightarrow> bool \<Rightarrow> PipelineExecutionResult \<times> world" where
  "execute env w p useCache =
    (let (startTime, w1) = now env w;
         (hit, w2) = (if useCache
                      then getPipelineExecution env w1 (pipeline_id p) (calculatePipelineHash env p)
                      else (None, w1))
     in case hit of
          Some c \<Rightarrow> (cachedResult p c, w2)
        | None \<Rightarrow>
            (case runPipeline env p of
               Inl err \<Rightarrow>
                 (let (t, w3) = now env w2 in (errorResult p err (t - startTime), w3))
             | Inr (nr, leafs) \<Rightarrow>
                 (let (t, w3) = now env w2;
                      w4 = (if useCache
                            then cachePipelineExecution env w3 (pipeline_id p)
                                   (calculatePipelineHash env p) (ownEntries nr) leafs
                                   (t - startTime)
                            else w3)
                  in (successResult p nr leafs (t - startTime), w4))))"

section \<open>Graph notions\<close>

text \<open>The edge relation of a pipeline, and the nodes reachable from a data source node
  by a directed path of any length (the glossary's reachable nodes).\<close>

definition edgeRel :: "PipelineEdge list \<Rightarrow> (string \<times> string) set" where
  "edgeRel es = (\<lambda>e. (edge_source e, edge_target e)) ` set es"

definition reachableFromSources :: "Pipeline \<Rightarrow> string set" where
  "reachableFromSources p =
     {v. \<exists>n \<in> set (nodes p). node_type n = ''dataSource'' \<and> (node_id n, v) \<in> (edgeRel (edges p))\<^sup>*}"

text \<open>The edge relation restricted to a set of nodes.\<close>

definition predRel :: "PipelineEdge list \<Rightarrow> string list \<Rightarrow> (string \<times> string) set" where
  "predRel es reach = {(u, v). (u, v) \<in> edgeRel es \<and> u \<in> set reach \<and> v \<in> set reach}"

text \<open>A list is ordered for a relation when every predecessor of an element occurs
  before it.\<close>

definition ordered :: "(string \<times> string) set \<Rightarrow> string list \<Rightarrow> bool" where
  "ordered P res = (\<forall>i < length res. \<forall>u. (u, res ! i) \<in> P \<longrightarrow> u \<in> set (take i res))"

text \<open>Invariants of the two depth-first searches: a visited set closed under the
  edges except at the nodes still being visited; the effect of one visit of the
  sort on its state; the nodes visited and not yet emitted.\<close>

definition closedExcept :: "PipelineEdge list \<Rightarrow> string list \<Rightarrow> string set \<Rightarrow> bool" where
  "closedExcept es visited G =
     (\<forall>e \<in> set es. edge_source e \<in> set visited - G \<longrightarrow> edge_target e \<in> set visited)"

definition stepOk ::
  "string list \<Rightarrow> string list \<times> string list \<Rightarrow> string list \<times> string list \<Rightarrow> bool" where
  "stepOk reach s s' =
     (set (fst s) \<subseteq> set (fst s') \<and> set (fst s') \<subseteq> set (fst s) \<union> set reach
      \<and> (\<exists>new. snd s' = snd s @ new \<and> distinct new
             \<and> set new \<subseteq> set reach - set (fst s) \<and> set new \<subseteq> set (fst s'))
      \<and> set (fst s') - set (snd s') = set (fst s) - set (snd s))"

definition gray :: "string list \<times> string list \<Rightarrow> string set" where
  "gray s = set (fst s) - set (snd s)"

text \<open>The state of \<open>topologicalSort\<close> after its two passes.\<close>

definition sortState :: "Pipeline \<Rightarrow> string list \<Rightarrow> string list \<times> string list" where
  "sortState p reach =
     foldl (\<lambda>s nodeId. visitT (edges p) reach nodeId s)
       (foldl (\<lambda>s n. visitT (edges p) reach (node_id n) s) ([], []) (noIncomingEdges p reach))
       reach"

section \<open>Example inputs\<close>

text \<open>A runtime whose string conversions are trivial, for evaluating examples.\<close>

definition plainRuntime :: js_runtime where
  "plainRuntime =
    \<lparr> stringToNumber = (\<lambda>s. NaN),
      numberToString = (\<lambda>n. []),
      evaluateExpression = (\<lambda>e r. None),
      newDate = (\<lambda>v. JNull),
      regExpMatch = (\<lambda>pat s. None) \<rparr>"

definition emptyConfig :: NodeConfig where
  "emptyConfig =
    \<lparr> databaseId = None, tableName = None, isInitial = None, conditions = None,
      transformations = None, groupBy = None, aggregations = None, joinType = None,
      joinCondition = None, chartType = None, xAxis = None, yAxis = None, nameKey = None,
      valueKey = None, pieColumn = None, pieSortBy = None, chartConfig = None,
      customCode = None \<rparr>"

definition mkNode :: "string \<Rightarrow> string \<Rightarrow> NodeConfig \<Rightarrow> PipelineNode" where
  "mkNode i t c =
    \<lparr> node_id = i, node_type = t, node_label = i, node_config = c, node_position = None \<rparr>"

definition mkEdge :: "string \<Rightarrow> string \<Rightarrow> string option \<Rightarrow> PipelineEdge" where
  "mkEdge s t h =
    \<lparr> edge_id = s @ ''-'' @ t, edge_source = s, edge_target = t,
      sourceHandle = None, targetHandle = h \<rparr>"

definition mkPipeline :: "PipelineNode list \<Rightarrow> PipelineEdge list \<Rightarrow> Pipeline" where
  "mkPipeline ns es =
    \<lparr> pipeline_id = ''p1'', pipeline_name = ''example'', description = None,
      nodes = ns, edges = es, createdAt = 0, updatedAt = 0 \<rparr>"

text \<open>The scenario: a source of three rows, a filter \<open>a > 1\<close>, and \<open>sum(a) as total\<close>.\<close>

definition scenarioRows :: "row list" where
  "scenarioRows = [[(''a'', JNum (Num 1))], [(''a'', JNum (Num 2))], [(''a'', JNum (Num 3))]]"

definition scenarioPipeline :: Pipeline where
  "scenarioPipeline =
    mkPipeline
      [ mkNode ''src'' ''dataSource'' (emptyConfig\<lparr>databaseId := Some ''db1''\<rparr>),
        mkNode ''flt'' ''filter''
          (emptyConfig\<lparr>conditions :=
             Some [\<lparr>fc_field = ''a'', fc_operator = ''gt'', fc_value = JNum (Num 1)\<rparr>]\<rparr>),
        mkNode ''agg'' ''aggregate''
          (emptyConfig\<lparr>aggregations :=
             Some [\<lparr>agg_field = ''a'', agg_function = ''sum'', agg_alias = ''total''\<rparr>]\<rparr>) ]
      [ mkEdge ''src'' ''flt'' None, mkEdge ''flt'' ''agg'' None ]"

text \<open>
  A platform for the examples: the row store holds the scenario's rows under \<open>db1\<close>
  and knows no other table, the clock's k-th reading is k, a user function returns
  its arguments concatenated, and the digest lists the node ids and the custom code.
\<close>

definition demoPlatform :: platform where
  "demoPlatform =
    js_runtime.extend plainRuntime
      (platform.fields
        (\<lambda>code args. ReturnedArray (concat args))
        (\<lambda>dbId page limit.
           if dbId = ''db1'' then Inr scenarioRows else Inl (Some ''Database not found''))
        (\<lambda>k. int k)
        (\<lambda>nf. concat (map (\<lambda>(i, t, c). i @ ''/'' @ (case customCode c of None \<Rightarrow> [] | Some s \<Rightarrow> s))
                       (fst nf))))"

definition freshWorld :: world where
  "freshWorld = \<lparr> config = DEFAULT_CACHE_CONFIG, pipelineExecutionCache = [], ticks = 0 \<rparr>"

text \<open>A cache holding one entry for \<open>p1\<close>, written at time 100 and valid for 50.\<close>

definition storedPayload :: PipelineExecutionCache where
  "storedPayload =
    \<lparr> pec_pipelineId = ''p1'', pec_pipelineHash = ''h1'', pec_nodeResults = [],
      pec_leafResults = [], pec_executionTime = 7, cachedAt = 100 \<rparr>"

definition worldAt :: "nat \<Rightarrow> world" where
  "worldAt k =
    \<lparr> config = DEFAULT_CACHE_CONFIG,
      pipelineExecutionCache =
        [(''p1'', \<lparr> entry_data = storedPayload, timestamp = 100, ttl = 50 \<rparr>)],
      ticks = k \<rparr>"

text \<open>A configuration with a leaf-result cap of 500 rows, and 50,000 rows to cache.\<close>

definition cap500World :: world where
  "cap500World =
    \<lparr> config = DEFAULT_CACHE_CONFIG\<lparr>maxExecutionResultRows := 500\<rparr>,
      pipelineExecutionCache = [], ticks = 0 \<rparr>"

definition manyRows :: "row list" where
  "manyRows = replicate 50000 [(''a'', JNum (Num 1))]"

definition manyLeaf :: LeafNodeResult where
  "manyLeaf = \<lparr> leaf_nodeId = ''n'', leaf_nodeLabel = ''n'', leaf_nodeType = ''dataSource'',
                 leaf_data = manyRows \<rparr>"


text \<open>A custom node \<open>c\<close> fed by \<open>a\<close> and \<open>b\<close>, and results for both.\<close>

definition customNode :: PipelineNode where
  "customNode =
    mkNode ''c'' ''custom''
      (emptyConfig\<lparr>customCode := Some ''function process(x, y) { return x.concat(y) }''\<rparr>)"

definition rowsA :: "row list" where
  "rowsA = [[(''x'', JNum (Num 1))]]"

definition rowsB :: "row list" where
  "rowsB = [[(''x'', JNum (Num 2))]]"

definition resultsAB :: "(string \<times> row list) list" where
  "resultsAB = [(''a'', rowsA), (''b'', rowsB)]"

text \<open>A pipeline with two nodes that no data source reaches.\<close>

definition orphanPipeline :: Pipeline where
  "orphanPipeline =
    mkPipeline
      [ mkNode ''src'' ''dataSource'' (emptyConfig\<lparr>databaseId := Some ''db1''\<rparr>),
        mkNode ''flt'' ''filter'' emptyConfig,
        mkNode ''lone'' ''filter'' emptyConfig,
        mkNode ''sink'' ''visualization'' emptyConfig ]
      [ mkEdge ''src'' ''flt'' None, mkEdge ''lone'' ''sink'' None ]"

definition scenarioRank :: "string \<Rightarrow> nat" where
  "scenarioRank x = (if x = ''src'' then 0 else if x = ''flt'' then 1 else 2)"

text \<open>A table of 1001 rows, one more than the default leaf-result cap, and a pipeline
  that is just its source.\<close>

definition bigRows :: "row list" where
  "bigRows = replicate 1001 [(''a'', JNum (Num 1))]"

definition bigPlatform :: platform where
  "bigPlatform = demoPlatform\<lparr>getDatabaseData := (\<lambda>dbId page limit. Inr bigRows)\<rparr>"

definition bigPipeline :: Pipeline where
  "bigPipeline =
    mkPipeline [ mkNode ''src'' ''dataSource'' (emptyConfig\<lparr>databaseId := Some ''big''\<rparr>) ] []"

text \<open>The scenario with the filter node relabelled and moved, and with its
  configuration replaced.\<close>

definition movedScenario :: Pipeline where
  "movedScenario =
     scenarioPipeline\<lparr>nodes := (nodes scenarioPipeline)
        [1 := (nodes scenarioPipeline ! 1)\<lparr>node_label := ''renamed'', node_position := Some (3, 4)\<rparr>]\<rparr>"

definition editedScenario :: Pipeline where
  "editedScenario =
     scenarioPipeline\<lparr>nodes := (nodes scenarioPipeline)
        [1 := (nodes scenarioPipeline ! 1)\<lparr>node_config := emptyConfig\<lparr>customCode := Some ''x''\<rparr>\<rparr>]\<rparr>"

text \<open>
  The scenario with the filter comparing against \<open>NaN\<close>, and against \<open>null\<close>: two
  configurations that JSON writes alike.
\<close>

definition withFilterValue :: "jsval \<Rightarrow> Pipeline" where
  "withFilterValue v =
     scenarioPipeline\<lparr>nodes := (nodes scenarioPipeline)
        [1 := (nodes scenarioPipeline ! 1)\<lparr>node_config :=
           emptyConfig\<lparr>conditions :=
             Some [\<lparr>fc_field = ''a'', fc_operator = ''gt'', fc_value = v\<rparr>]\<rparr>\<rparr>]\<rparr>"

definition nanScenario :: Pipeline where
  "nanScenario = withFilterValue (JNum NaN)"

definition nullScenario :: Pipeline where
  "nullScenario = withFilterValue JNull"

text \<open>A data source node whose id is \<open>__proto__\<close>, feeding a filter without conditions.\<close>

definition protoPipeline :: Pipeline where
  "protoPipeline =
    mkPipeline
      [ mkNode ''__proto__'' ''dataSource'' (emptyConfig\<lparr>databaseId := Some ''db1''\<rparr>),
        mkNode ''f'' ''filter'' emptyConfig ]
      [ mkEdge ''__proto__'' ''f'' None ]"

section \<open>Aggregation\<close>

lemma aggValues_filter_rows:
  "aggValues (filter (\<lambda>r. \<not> isNullish (getField r f)) data) f = aggValues data f"
  by (induction data) (auto simp: aggValues_def)

lemma aggValues_length:
  "length (aggValues data f) = length (filter (\<lambda>r. \<not> isNullish (getField r f)) data)"
  by (induction data) (auto simp: aggValues_def)




text \<open>
  C10. An aggregation gives the same value on the rows whose field is neither \<open>null\<close>
  nor \<open>undefined\<close> as on all rows, whatever the function; \<open>count\<close> is the number of those
  rows, and \<open>sum\<close> adds up their values only.
\<close>

theorem aggregation_ignores_nullish_rows:
  fixes env :: "'z js_runtime_scheme"
  shows "performAggregation env data agg
       = performAggregation env (filter (\<lambda>r. \<not> isNullish (getField r (agg_field agg))) data) agg
     \<and> performAggregation env data \<lparr>agg_field = f, agg_function = ''count'', agg_alias = a\<rparr>
       = JNum (Num (of_nat (length (filter (\<lambda>r. \<not> isNullish (getField r f)) data))))
     \<and> performAggregation env data \<lparr>agg_field = f, agg_function = ''sum'', agg_alias = a\<rparr>
       = JNum (sumValues env (filter (\<lambda>v. \<not> isNullish v) (map (\<lambda>r. getField r f) data)))"
  by (simp add: performAggregation_def aggValues_filter_rows aggValues_length)
     (simp add: aggValues_def)

theorem aggregation_ignores_nullish_rows_witness:
  "performAggregation plainRuntime
      [[(''a'', JNum (Num 4))], [(''b'', JNum (Num 1))], [(''a'', JNull)], [(''a'', JNum (Num 6))]]
      \<lparr>agg_field = ''a'', agg_function = ''count'', agg_alias = ''n''\<rparr> = JNum (Num 2)
   \<and> performAggregation plainRuntime
      [[(''a'', JNum (Num 4))], [(''b'', JNum (Num 1))], [(''a'', JNull)], [(''a'', JNum (Num 6))]]
      \<lparr>agg_field = ''a'', agg_function = ''avg'', agg_alias = ''n''\<rparr>
     = performAggregation plainRuntime [[(''a'', JNum (Num 4))], [(''a'', JNum (Num 6))]]
      \<lparr>agg_field = ''a'', agg_function = ''avg'', agg_alias = ''n''\<rparr>"
  using aggregation_ignores_nullish_rows[of plainRuntime
      "[[(''a'', JNum (Num 4))], [(''b'', JNum (Num 1))], [(''a'', JNull)], [(''a'', JNum (Num 6))]]"
      "\<lparr>agg_field = ''a'', agg_function = ''avg'', agg_alias = ''n''\<rparr>" "''a''" "''n''"]
  by (simp add: isNullish_def getField_def)

section \<open>The scenario\<close>

lemma reach_scenario: "reachableNodes scenarioPipeline = [''src'', ''flt'', ''agg'']"
  by (simp add: reachableNodes_def scenarioPipeline_def mkPipeline_def dataSourceNodes_def
      mkNode_def mkEdge_def findReachableNodes_def setAdd_def)

lemma topo_scenario:
  "topologicalSort scenarioPipeline [''src'', ''flt'', ''agg''] = [''src'', ''flt'', ''agg'']"
  by (simp add: topologicalSort_def noIncomingEdges_def scenarioPipeline_def mkPipeline_def
      mkNode_def mkEdge_def)

lemma leaf_scenario: "findLeafNodes scenarioPipeline [''src'', ''flt'', ''agg''] = [''agg'']"
  by (simp add: findLeafNodes_def scenarioPipeline_def mkPipeline_def mkNode_def mkEdge_def)

lemma runPipeline_scenario:
  assumes "getDatabaseData env ''db1'' 1 10000 = Inr scenarioRows"
  shows "runPipeline env scenarioPipeline =
     Inr ([(''src'', scenarioRows),
           (''flt'', [[(''a'', JNum (Num 2))], [(''a'', JNum (Num 3))]]),
           (''agg'', [[(''total'', JNum (Num 5))]])],
          [\<lparr> leaf_nodeId = ''agg'', leaf_nodeLabel = ''agg'', leaf_nodeType = ''aggregate'',
             leaf_data = [[(''total'', JNum (Num 5))]] \<rparr>])"
proof -
  have ds: "length (dataSourceNodes scenarioPipeline) \<noteq> 0"
    by (simp add: dataSourceNodes_def scenarioPipeline_def mkPipeline_def mkNode_def)
  have run: "runNodes env scenarioPipeline [''src'', ''flt'', ''agg''] [] =
     Inr [(''src'', scenarioRows),
           (''flt'', [[(''a'', JNum (Num 2))], [(''a'', JNum (Num 3))]]),
           (''agg'', [[(''total'', JNum (Num 5))]])]"
    using assms
    by (simp add: scenarioPipeline_def mkPipeline_def mkNode_def mkEdge_def emptyConfig_def
        executeNode_def executeDataSource_def truthyStr_def getNodeInputData_def
        executeFilter_def executeAggregate_def singleInput_def resultOf_def
        DataTransform_filter_def testCondition_def getField_def scenarioRows_def
        DataTransform_aggregate_def addAggregations_def performAggregation_def
        aggValues_def isNullish_def sumValues_def)
  have leafs: "collectLeafResults scenarioPipeline
       [(''src'', scenarioRows),
           (''flt'', [[(''a'', JNum (Num 2))], [(''a'', JNum (Num 3))]]),
           (''agg'', [[(''total'', JNum (Num 5))]])] [''agg'']
     = Inr [\<lparr> leaf_nodeId = ''agg'', leaf_nodeLabel = ''agg'', leaf_nodeType = ''aggregate'',
             leaf_data = [[(''total'', JNum (Num 5))]] \<rparr>]"
    by (simp add: scenarioPipeline_def mkPipeline_def mkNode_def resultOf_def)
  show ?thesis
    unfolding runPipeline_def using ds
    by (simp add: reach_scenario topo_scenario leaf_scenario run leafs
          del: runNodes.simps collectLeafResults.simps)
qed

lemma demoPlatform_db1: "getDatabaseData demoPlatform ''db1'' 1 10000 = Inr scenarioRows"
  by (simp add: demoPlatform_def js_runtime.extend_def platform.fields_def plainRuntime_def)

text \<open>
  C1. With a row store that returns the rows a=1, a=2, a=3 for the source, one
  execution of the scenario pipeline without the cache succeeds; the filter keeps the
  rows a=2 and a=3, and the only leaf result is the aggregate node's single row
  \<open>{total: 5}\<close>.
\<close>

theorem scenario_yields_total_5:
  assumes "getDatabaseData env ''db1'' 1 10000 = Inr scenarioRows"
  shows "status (fst (execute env w scenarioPipeline False)) = ''success''
       \<and> cached (fst (execute env w scenarioPipeline False)) = False
       \<and> leafResults (fst (execute env w scenarioPipeline False))
           = Some [\<lparr> leaf_nodeId = ''agg'', leaf_nodeLabel = ''agg'', leaf_nodeType = ''aggregate'',
                     leaf_data = [[(''total'', JNum (Num 5))]] \<rparr>]
       \<and> res_data (fst (execute env w scenarioPipeline False)) = Some [[(''total'', JNum (Num 5))]]
       \<and> map_of (the (nodeResults (fst (execute env w scenarioPipeline False)))) ''flt''
           = Some [[(''a'', JNum (Num 2))], [(''a'', JNum (Num 3))]]"
  by (simp add: execute_def now_def runPipeline_scenario[OF assms] successResult_def)

theorem scenario_yields_total_5_witness:
  "getDatabaseData demoPlatform ''db1'' 1 10000 = Inr scenarioRows
   \<and> status (fst (execute demoPlatform freshWorld scenarioPipeline False)) = ''success''
   \<and> leafResults (fst (execute demoPlatform freshWorld scenarioPipeline False))
       = Some [\<lparr> leaf_nodeId = ''agg'', leaf_nodeLabel = ''agg'', leaf_nodeType = ''aggregate'',
                 leaf_data = [[(''total'', JNum (Num 5))]] \<rparr>]"
  using demoPlatform_db1 scenario_yields_total_5[OF demoPlatform_db1, of freshWorld] by simp

section \<open>Cache lookup\<close>

lemma map_of_delete_same: "map_of (AList.delete k al) k = None"
  by (simp add: AList.delete_conv')

text \<open>
  C5. \<open>getPipelineExecution\<close> returns \<open>null\<close> exactly when no entry is stored for the
  pipeline id, or the entry has expired (now - timestamp > ttl), or its hash differs
  from the one supplied; in the last two cases the entry is deleted, otherwise the
  stored payload is returned and the map is unchanged. An entry with timestamp T is a
  hit (for its own hash) when read before T + ttl and a miss when read after T + ttl.
  Entries of other pipelines are never touched, and the result is always a value.
\<close>

theorem getPipelineExecution_outcomes:
  "((fst (getPipelineExecution env w pid h) = None) =
      (map_of (pipelineExecutionCache w) pid = None
       \<or> (\<exists>entry. map_of (pipelineExecutionCache w) pid = Some entry
             \<and> (dateNow env (ticks w) - timestamp entry > ttl entry
                 \<or> pec_pipelineHash (entry_data entry) \<noteq> h))))
   \<and> (map_of (pipelineExecutionCache w) pid = None \<longrightarrow>
         getPipelineExecution env w pid h = (None, w))
   \<and> (\<forall>entry. map_of (pipelineExecutionCache w) pid = Some entry \<longrightarrow>
         (dateNow env (ticks w) - timestamp entry > ttl entry
            \<or> pec_pipelineHash (entry_data entry) \<noteq> h \<longrightarrow>
              fst (getPipelineExecution env w pid h) = None
              \<and> pipelineExecutionCache (snd (getPipelineExecution env w pid h))
                  = AList.delete pid (pipelineExecutionCache w)
              \<and> map_of (pipelineExecutionCache (snd (getPipelineExecution env w pid h))) pid = None)
       \<and> (\<not> dateNow env (ticks w) - timestamp entry > ttl entry
            \<and> pec_pipelineHash (entry_data entry) = h \<longrightarrow>
              fst (getPipelineExecution env w pid h) = Some (entry_data entry)
              \<and> pipelineExecutionCache (snd (getPipelineExecution env w pid h))
                  = pipelineExecutionCache w)
       \<and> (pec_pipelineHash (entry_data entry) = h
            \<and> dateNow env (ticks w) < timestamp entry + ttl entry \<longrightarrow>
              fst (getPipelineExecution env w pid h) = Some (entry_data entry))
       \<and> (dateNow env (ticks w) > timestamp entry + ttl entry \<longrightarrow>
              fst (getPipelineExecution env w pid h) = None))
   \<and> (\<forall>k. k \<noteq> pid \<longrightarrow>
         map_of (pipelineExecutionCache (snd (getPipelineExecution env w pid h))) k
           = map_of (pipelineExecutionCache w) k)"
  by (auto simp: getPipelineExecution_def now_def map_of_delete_same split: option.splits)

theorem getPipelineExecution_outcomes_witness:
  "fst (getPipelineExecution demoPlatform (worldAt 149) ''p1'' ''h1'') = Some storedPayload
   \<and> fst (getPipelineExecution demoPlatform (worldAt 151) ''p1'' ''h1'') = None
   \<and> pipelineExecutionCache (snd (getPipelineExecution demoPlatform (worldAt 151) ''p1'' ''h1'')) = []
   \<and> fst (getPipelineExecution demoPlatform (worldAt 149) ''p1'' ''h2'') = None
   \<and> getPipelineExecution demoPlatform (worldAt 149) ''p2'' ''h1'' = (None, worldAt 149)"
proof -
  have e: "map_of (pipelineExecutionCache (worldAt k)) ''p1''
      = Some \<lparr> entry_data = storedPayload, timestamp = 100, ttl = 50 \<rparr>" for k
    by (simp add: worldAt_def)
  have n: "map_of (pipelineExecutionCache (worldAt k)) ''p2'' = None" for k
    by (simp add: worldAt_def)
  have d: "dateNow demoPlatform (ticks (worldAt k)) = int k" for k
    by (simp add: demoPlatform_def js_runtime.extend_def platform.fields_def worldAt_def)
  have c: "AList.delete ''p1'' (pipelineExecutionCache (worldAt k)) = []" for k
    by (simp add: worldAt_def)
  have hsh: "pec_pipelineHash storedPayload = ''h1''"
    by (simp add: storedPayload_def)
  show ?thesis
    using getPipelineExecution_outcomes[of demoPlatform "worldAt 149" "''p1''" "''h1''"]
      getPipelineExecution_outcomes[of demoPlatform "worldAt 151" "''p1''" "''h1''"]
      getPipelineExecution_outcomes[of demoPlatform "worldAt 149" "''p1''" "''h2''"]
      getPipelineExecution_outcomes[of demoPlatform "worldAt 149" "''p2''" "''h1''"]
    by (simp add: e n d c hsh)
qed

section \<open>Cache write\<close>

lemma map_of_delete_all:
  "map_of (foldl (\<lambda>c (k, e). AList.delete k c) c ds) k
     = (if k \<in> fst ` set ds then None else map_of c k)"
proof (induction ds arbitrary: c)
  case Nil
  then show ?case by simp
next
  case (Cons d ds)
  obtain k' e' where d: "d = (k', e')" by (cases d)
  show ?case using Cons[of "AList.delete k' c"] by (auto simp: d AList.delete_conv')
qed

lemma enforceMaxEntries_keeps:
  "map_of (enforceMaxEntries cfg c) k = Some e \<Longrightarrow> map_of c k = Some e"
  by (auto simp: enforceMaxEntries_def Let_def map_of_delete_all split: if_splits)

lemma enforceMaxEntries_room:
  "int (length c) \<le> maxCacheEntries cfg \<Longrightarrow> enforceMaxEntries cfg c = c"
  by (simp add: enforceMaxEntries_def)

lemma length_update_le: "length (AList.update k v al) \<le> Suc (length al)"
  by (induction al) auto

lemma slice0_nonneg: "0 \<le> c \<Longrightarrow> slice0 xs c = take (nat c) xs"
  by (simp add: slice0_def)

lemma limitNodeResults_snoc:
  "limitNodeResults cfg (nr @ [(k, d)])
     = AList.update k (slice0 d (maxNodeResultRows cfg)) (limitNodeResults cfg nr)"
  by (simp add: limitNodeResults_def)

lemma limitNodeResults_lookup:
  "map_of (limitNodeResults cfg nr) k = Some d \<Longrightarrow>
     \<exists>d0. (k, d0) \<in> set nr \<and> d = slice0 d0 (maxNodeResultRows cfg)"
proof (induction nr arbitrary: d rule: rev_induct)
  case Nil
  then show ?case by (simp add: limitNodeResults_def)
next
  case (snoc x nr)
  obtain k' d' where x: "x = (k', d')" by (cases x)
  show ?case using snoc
    by (auto simp: x limitNodeResults_snoc AList.update_conv' split: if_splits)
qed

lemma limitNodeResults_keys:
  "fst ` set (limitNodeResults cfg nr) = fst ` set nr"
proof (induction nr rule: rev_induct)
  case Nil
  then show ?case by (simp add: limitNodeResults_def)
next
  case (snoc x nr)
  obtain k' d' where x: "x = (k', d')" by (cases x)
  show ?case using snoc by (simp add: x limitNodeResults_snoc AList.dom_update)
qed

text \<open>What \<open>cachePipelineExecution\<close> leaves under the pipeline's key, if anything.\<close>

lemma cachePipelineExecution_entry:
  assumes "map_of (pipelineExecutionCache (cachePipelineExecution env w pid h nr leafs t)) pid = Some e"
  shows "e = \<lparr> entry_data =
                 \<lparr> pec_pipelineId = pid, pec_pipelineHash = h,
                   pec_nodeResults = limitNodeResults (config w) nr,
                   pec_leafResults = limitLeafResults (config w) leafs,
                   pec_executionTime = t, cachedAt = dateNow env (ticks w) \<rparr>,
               timestamp = dateNow env (Suc (ticks w)),
               ttl = pipelineExecutionTTL (config w) \<rparr>"
  using assms
  by (auto simp: cachePipelineExecution_def now_def Let_def AList.update_conv'
      dest!: enforceMaxEntries_keeps)

lemma cachePipelineExecution_frame:
  "config (cachePipelineExecution env w pid h nr leafs t) = config w"
  "ticks (cachePipelineExecution env w pid h nr leafs t) = Suc (Suc (ticks w))"
  by (simp_all add: cachePipelineExecution_def now_def Let_def)

lemma cachePipelineExecution_present:
  assumes "int (length (pipelineExecutionCache w)) < maxCacheEntries (config w)"
  shows "map_of (pipelineExecutionCache (cachePipelineExecution env w pid h nr leafs t)) pid \<noteq> None"
proof -
  let ?e = "\<lparr> entry_data =
                 \<lparr> pec_pipelineId = pid, pec_pipelineHash = h,
                   pec_nodeResults = limitNodeResults (config w) nr,
                   pec_leafResults = limitLeafResults (config w) leafs,
                   pec_executionTime = t, cachedAt = dateNow env (ticks w) \<rparr>,
               timestamp = dateNow env (Suc (ticks w)),
               ttl = pipelineExecutionTTL (config w) \<rparr>"
  have "int (length (AList.update pid ?e (pipelineExecutionCache w))) \<le> maxCacheEntries (config w)"
    using assms length_update_le[of pid ?e "pipelineExecutionCache w"] by linarith
  then show ?thesis
    by (simp add: cachePipelineExecution_def now_def Let_def enforceMaxEntries_room AList.update_conv')
qed

lemma execute_fresh:
  assumes "runPipeline env p = Inr (nr, leafs)" "\<not> cached (fst (execute env w p uc))"
  shows "nodeResults (fst (execute env w p uc)) = Some nr"
    "leafResults (fst (execute env w p uc)) = Some leafs"
    "status (fst (execute env w p uc)) = ''success''"
  using assms
  by (auto simp: execute_def now_def Let_def cachedResult_def successResult_def
      split: prod.splits option.splits if_splits)

text \<open>
  C6. With non-negative row caps, the entry that \<open>cachePipelineExecution\<close> stores
  holds every leaf result cut to the first \<open>maxExecutionResultRows\<close> rows, so n rows
  are stored as min n cap rows, and every per-node result cut to the first
  \<open>maxNodeResultRows\<close> rows, under the same node ids; the entry is stored whenever the
  map has room for it. The default leaf cap is the smaller of the two. The node and
  leaf results returned by an execution that was not served from the cache are those
  computed by the run, whatever the caps are.
\<close>

theorem cache_rows_bounded:
  assumes "0 \<le> maxExecutionResultRows (config w)" and "0 \<le> maxNodeResultRows (config w)"
  shows
   "(\<forall>e. map_of (pipelineExecutionCache (cachePipelineExecution env w pid h nr leafs t)) pid = Some e \<longrightarrow>
        map leaf_data (pec_leafResults (entry_data e))
          = map (\<lambda>l. take (nat (maxExecutionResultRows (config w))) (leaf_data l)) leafs
      \<and> map (\<lambda>l. length (leaf_data l)) (pec_leafResults (entry_data e))
          = map (\<lambda>l. min (length (leaf_data l)) (nat (maxExecutionResultRows (config w)))) leafs
      \<and> fst ` set (pec_nodeResults (entry_data e)) = fst ` set nr
      \<and> (\<forall>k d. map_of (pec_nodeResults (entry_data e)) k = Some d \<longrightarrow>
            (\<exists>d0. (k, d0) \<in> set nr \<and> d = take (nat (maxNodeResultRows (config w))) d0
                  \<and> length d = min (length d0) (nat (maxNodeResultRows (config w))))))
    \<and> (int (length (pipelineExecutionCache w)) < maxCacheEntries (config w) \<longrightarrow>
         map_of (pipelineExecutionCache (cachePipelineExecution env w pid h nr leafs t)) pid \<noteq> None)
    \<and> maxExecutionResultRows DEFAULT_CACHE_CONFIG < maxNodeResultRows DEFAULT_CACHE_CONFIG
    \<and> (\<forall>p uc nr' leafs'.
          runPipeline env p = Inr (nr', leafs') \<and> \<not> cached (fst (execute env w p uc)) \<longrightarrow>
            nodeResults (fst (execute env w p uc)) = Some nr'
            \<and> leafResults (fst (execute env w p uc)) = Some leafs')"
proof (intro conjI allI impI)
  fix e
  assume e: "map_of (pipelineExecutionCache (cachePipelineExecution env w pid h nr leafs t)) pid = Some e"
  note ee = cachePipelineExecution_entry[OF e]
  show "map leaf_data (pec_leafResults (entry_data e))
          = map (\<lambda>l. take (nat (maxExecutionResultRows (config w))) (leaf_data l)) leafs"
    using assms by (simp add: ee limitLeafResults_def slice0_nonneg)
  show "map (\<lambda>l. length (leaf_data l)) (pec_leafResults (entry_data e))
          = map (\<lambda>l. min (length (leaf_data l)) (nat (maxExecutionResultRows (config w)))) leafs"
    using assms by (simp add: ee limitLeafResults_def slice0_nonneg)
  show "fst ` set (pec_nodeResults (entry_data e)) = fst ` set nr"
    by (simp add: ee limitNodeResults_keys)
  fix k d
  assume "map_of (pec_nodeResults (entry_data e)) k = Some d"
  then have "map_of (limitNodeResults (config w) nr) k = Some d" by (simp add: ee)
  from limitNodeResults_lookup[OF this] assms(2)
  show "\<exists>d0. (k, d0) \<in> set nr \<and> d = take (nat (maxNodeResultRows (config w))) d0
                  \<and> length d = min (length d0) (nat (maxNodeResultRows (config w)))"
    by (auto simp: slice0_nonneg)
next
  assume "int (length (pipelineExecutionCache w)) < maxCacheEntries (config w)"
  then show "map_of (pipelineExecutionCache (cachePipelineExecution env w pid h nr leafs t)) pid \<noteq> None"
    by (rule cachePipelineExecution_present)
next
  show "maxExecutionResultRows DEFAULT_CACHE_CONFIG < maxNodeResultRows DEFAULT_CACHE_CONFIG"
    by (simp add: DEFAULT_CACHE_CONFIG_def)
next
  fix p uc nr' leafs'
  assume a: "runPipeline env p = Inr (nr', leafs') \<and> \<not> cached (fst (execute env w p uc))"
  then show "nodeResults (fst (execute env w p uc)) = Some nr'"
    using execute_fresh(1) by blast
  show "leafResults (fst (execute env w p uc)) = Some leafs'"
    using a execute_fresh(2) by blast
qed

theorem cache_rows_bounded_witness:
  "0 \<le> maxExecutionResultRows (config cap500World)
   \<and> 0 \<le> maxNodeResultRows (config cap500World)
   \<and> length manyRows = 50000
   \<and> (\<exists>e. map_of (pipelineExecutionCache
               (cachePipelineExecution demoPlatform cap500World ''p1'' ''h1''
                  [(''n'', manyRows)] [manyLeaf] 7)) ''p1'' = Some e
          \<and> map (\<lambda>l. length (leaf_data l)) (pec_leafResults (entry_data e)) = [500])
   \<and> map (\<lambda>l. length (leaf_data l))
        (the (leafResults (fst (execute demoPlatform cap500World scenarioPipeline False)))) = [1]"
proof -
  have h1: "0 \<le> maxExecutionResultRows (config cap500World)"
    and h2: "0 \<le> maxNodeResultRows (config cap500World)"
    by (simp_all add: cap500World_def DEFAULT_CACHE_CONFIG_def)
  have room: "int (length (pipelineExecutionCache cap500World)) < maxCacheEntries (config cap500World)"
    by (simp add: cap500World_def DEFAULT_CACHE_CONFIG_def)
  have len: "length manyRows = 50000"
    by (simp add: manyRows_def)
  have cap: "nat (maxExecutionResultRows (config cap500World)) = 500"
    by (simp add: cap500World_def)
  have nc: "\<not> cached (fst (execute demoPlatform cap500World scenarioPipeline False))"
    by (simp add: execute_def now_def runPipeline_scenario[OF demoPlatform_db1] successResult_def)
  note t = cache_rows_bounded[OF h1 h2, of demoPlatform "''p1''" "''h1''" "[(''n'', manyRows)]"
      "[manyLeaf]" 7]
  from t room obtain e where e:
    "map_of (pipelineExecutionCache
               (cachePipelineExecution demoPlatform cap500World ''p1'' ''h1''
                  [(''n'', manyRows)] [manyLeaf] 7)) ''p1'' = Some e"
    by blast
  with t have "map (\<lambda>l. length (leaf_data l)) (pec_leafResults (entry_data e))
          = map (\<lambda>l. min (length (leaf_data l)) (nat (maxExecutionResultRows (config cap500World))))
              [manyLeaf]"
    by blast
  then have l500: "map (\<lambda>l. length (leaf_data l)) (pec_leafResults (entry_data e)) = [500]"
    by (simp add: cap manyLeaf_def len)
  from t runPipeline_scenario[OF demoPlatform_db1] nc
  have "leafResults (fst (execute demoPlatform cap500World scenarioPipeline False))
          = Some [\<lparr> leaf_nodeId = ''agg'', leaf_nodeLabel = ''agg'', leaf_nodeType = ''aggregate'',
                     leaf_data = [[(''total'', JNum (Num 5))]] \<rparr>]"
    by blast
  then show ?thesis using h1 h2 len e l500 by auto
qed

section \<open>Errors\<close>





lemma execute_status:
  "status (fst (execute env w p uc)) =
     (if cached (fst (execute env w p uc)) then ''success''
      else case runPipeline env p of Inl err \<Rightarrow> ''error'' | Inr r \<Rightarrow> ''success'')"
  by (auto simp: execute_def now_def Let_def cachedResult_def errorResult_def successResult_def
      split: prod.splits option.splits if_splits sum.splits)




section \<open>Input of a custom node\<close>

lemma filter_key_singleton:
  "distinct (map f xs) \<Longrightarrow> k \<in> set xs \<Longrightarrow> filter (\<lambda>x. f k = f x) xs = [k]"
proof (induction xs)
  case Nil
  then show ?case by simp
next
  case (Cons x xs)
  show ?case
  proof (cases "x = k")
    case True
    then have "filter (\<lambda>y. f k = f y) xs = []"
      using Cons.prems by (auto simp: filter_empty_conv)
    then show ?thesis using True by simp
  next
    case False
    then have "k \<in> set xs" using Cons.prems by simp
    moreover have "f k \<noteq> f x" using Cons.prems False \<open>k \<in> set xs\<close>
      by (metis distinct.simps(2) image_eqI list.simps(9) set_map)
    ultimately show ?thesis using Cons by simp
  qed
qed

text \<open>With pairwise distinct keys the sorted list depends on the elements only.\<close>

lemma sort_key_distinct_perm:
  fixes f :: "'a \<Rightarrow> 'k::linorder"
  assumes "mset xs = mset ys" "distinct (map f xs)"
  shows "sort_key f xs = sort_key f ys"
proof (rule properties_for_sort_key)
  show "mset (sort_key f ys) = mset xs" using assms by simp
  show "sorted (map f (sort_key f ys))" by simp
  fix k assume "k \<in> set (sort_key f ys)"
  then have kx: "k \<in> set xs" and ky: "k \<in> set ys"
    using assms(1) by (auto dest: mset_eq_setD)
  have "mset (map f xs) = mset (map f ys)" using assms(1) by simp
  then have dy: "distinct (map f ys)" using assms(2)
    by (metis mset_eq_imp_distinct_iff)
  have "filter (\<lambda>x. f k = f x) (sort_key f ys) = filter (\<lambda>x. f k = f x) ys"
    using sort_key_stable[of f "f k" ys] by (simp add: eq_commute)
  also have "\<dots> = [k]" using dy ky by (rule filter_key_singleton)
  also have "\<dots> = filter (\<lambda>x. f k = f x) xs"
    using filter_key_singleton[OF assms(2) kx] by simp
  finally show "filter (\<lambda>x. f k = f x) (sort_key f ys) = filter (\<lambda>x. f k = f x) xs" .
qed

lemma getNodeInputData_custom:
  assumes "node_type node = ''custom''"
    and "length (filter (\<lambda>e. edge_target e = node_id node) (edges p)) \<ge> 2"
  shows "getNodeInputData node p nr =
     Multi (map (\<lambda>e. resultOf nr (edge_source e))
             (sortedEdges (filter (\<lambda>e. edge_target e = node_id node) (edges p))))"
proof -
  obtain e e' rest where "filter (\<lambda>e. edge_target e = node_id node) (edges p) = e # e' # rest"
    using assms(2)
    by (cases "filter (\<lambda>e. edge_target e = node_id node) (edges p)" rule: remdups_adj.cases) auto
  then show ?thesis using assms(1)
    by (simp add: getNodeInputData_def)
qed

text \<open>Only a custom node is given an array of row arrays.\<close>

lemma getNodeInputData_Multi_custom:
  "getNodeInputData node p nr = Multi inputs \<Longrightarrow> node_type node = ''custom''"
  by (auto simp: getNodeInputData_def Let_def split: list.splits if_splits)

lemma executeCustom_calls_userFunction:
  assumes "truthyStr (customCode (node_config node))"
    and "\<not> blank (the (customCode (node_config node)))"
  shows "executeCustom env node (Multi inputs) =
     (case userFunction env (the (customCode (node_config node))) inputs of
        ReturnedArray rows \<Rightarrow> Inr rows
      | ReturnedNonArray \<Rightarrow> Inl (CustomCodeFailed ''Custom function must return an array'')
      | Threw m \<Rightarrow> Inl (CustomCodeFailed m)
      | ThrewNonError \<Rightarrow> Inl (CustomCodeFailed ''Unknown error''))"
  using assms by (simp add: executeCustom_def)

lemma sorted_input_1_0:
  "sortedEdges [mkEdge a c (Some ''input-1''), mkEdge b c (Some ''input-0'')]
     = [mkEdge b c (Some ''input-0''), mkEdge a c (Some ''input-1'')]"
  by (simp add: sortedEdges_def handleOf_def mkEdge_def truthyStr_def less_char_def
      less_eq_char_def)

lemma tie_inputs:
  "getNodeInputData customNode (mkPipeline [] [mkEdge x ''c'' None, mkEdge y ''c'' None]) nr
     = Multi [resultOf nr x, resultOf nr y]"
  by (simp add: getNodeInputData_def customNode_def mkNode_def mkPipeline_def mkEdge_def
      sortedEdges_def handleOf_def truthyStr_def)

text \<open>
  C8, as stated, fails: two edges that both lack a handle default to \<open>input-0\<close>, the
  stable sort keeps them in declaration order, and swapping their declarations swaps
  the arguments.
\<close>

theorem custom_input_order_counterexample:
  "getNodeInputData customNode
       (mkPipeline [] [mkEdge ''a'' ''c'' None, mkEdge ''b'' ''c'' None]) resultsAB
     = Multi [rowsA, rowsB]
   \<and> getNodeInputData customNode
       (mkPipeline [] [mkEdge ''b'' ''c'' None, mkEdge ''a'' ''c'' None]) resultsAB
     = Multi [rowsB, rowsA]
   \<and> getNodeInputData customNode
       (mkPipeline [] [mkEdge ''a'' ''c'' None, mkEdge ''b'' ''c'' None]) resultsAB
     \<noteq> getNodeInputData customNode
       (mkPipeline [] [mkEdge ''b'' ''c'' None, mkEdge ''a'' ''c'' None]) resultsAB"
  by (simp add: tie_inputs resultOf_def resultsAB_def rowsA_def rowsB_def)

text \<open>
  C8, amended. For a custom node with at least two incoming edges the input is the
  array of the sources' row arrays in the order of the incoming edges sorted by handle
  (a missing or empty handle counts as \<open>input-0\<close>): the handles are ascending in the
  lexical order, and edges with equal handles keep their declaration order. When the
  handles of the incoming edges are pairwise distinct, the input is the same for every
  reordering of the pipeline's edges. A non-blank custom code is called with exactly
  these arrays as its arguments. For edges tagged \<open>input-1\<close> and \<open>input-0\<close>, declared in
  that order, the arguments are (input-0 data, input-1 data).
\<close>

theorem custom_inputs_sorted_by_handle:
  assumes "node_type node = ''custom''"
    and "length (filter (\<lambda>e. edge_target e = node_id node) (edges p)) \<ge> 2"
  shows
   "getNodeInputData node p nr =
      Multi (map (\<lambda>e. resultOf nr (edge_source e))
              (sortedEdges (filter (\<lambda>e. edge_target e = node_id node) (edges p))))
    \<and> sorted (map handleOf (sortedEdges (filter (\<lambda>e. edge_target e = node_id node) (edges p))))
    \<and> mset (sortedEdges (filter (\<lambda>e. edge_target e = node_id node) (edges p)))
        = mset (filter (\<lambda>e. edge_target e = node_id node) (edges p))
    \<and> (\<forall>h. filter (\<lambda>e. handleOf e = h)
               (sortedEdges (filter (\<lambda>e. edge_target e = node_id node) (edges p)))
            = filter (\<lambda>e. handleOf e = h) (filter (\<lambda>e. edge_target e = node_id node) (edges p)))
    \<and> (\<forall>p'. mset (edges p') = mset (edges p)
            \<and> distinct (map handleOf (filter (\<lambda>e. edge_target e = node_id node) (edges p)))
          \<longrightarrow> getNodeInputData node p' nr = getNodeInputData node p nr)
    \<and> (truthyStr (customCode (node_config node)) \<and> \<not> blank (the (customCode (node_config node)))
          \<longrightarrow> executeCustom env node (getNodeInputData node p nr) =
             (case userFunction env (the (customCode (node_config node)))
                     (map (\<lambda>e. resultOf nr (edge_source e))
                        (sortedEdges (filter (\<lambda>e. edge_target e = node_id node) (edges p)))) of
                ReturnedArray rows \<Rightarrow> Inr rows
              | ReturnedNonArray \<Rightarrow> Inl (CustomCodeFailed ''Custom function must return an array'')
              | Threw m \<Rightarrow> Inl (CustomCodeFailed m)
              | ThrewNonError \<Rightarrow> Inl (CustomCodeFailed ''Unknown error'')))
    \<and> getNodeInputData node
         (p\<lparr>edges := [mkEdge a (node_id node) (Some ''input-1''),
                       mkEdge b (node_id node) (Some ''input-0'')]\<rparr>) nr
        = Multi [resultOf nr b, resultOf nr a]"
proof -
  let ?inc = "\<lambda>q. filter (\<lambda>e. edge_target e = node_id node) (edges q)"
  have two: "getNodeInputData node
         (p\<lparr>edges := [mkEdge a (node_id node) (Some ''input-1''),
                       mkEdge b (node_id node) (Some ''input-0'')]\<rparr>) nr
        = Multi [resultOf nr b, resultOf nr a]"
    using assms(1) sorted_input_1_0[of a "node_id node" b]
    by (simp add: getNodeInputData_def) (simp add: mkEdge_def)
  have main: "getNodeInputData node p nr =
      Multi (map (\<lambda>e. resultOf nr (edge_source e)) (sortedEdges (?inc p)))"
    using assms by (rule getNodeInputData_custom)
  have perm: "getNodeInputData node p' nr = getNodeInputData node p nr"
    if m: "mset (edges p') = mset (edges p)" and d: "distinct (map handleOf (?inc p))" for p'
  proof -
    have mi: "mset (?inc p) = mset (?inc p')" by (metis m mset_filter)
    then have "length (?inc p') = length (?inc p)" by (metis size_mset)
    then have "getNodeInputData node p' nr =
      Multi (map (\<lambda>e. resultOf nr (edge_source e)) (sortedEdges (?inc p')))"
      using assms by (intro getNodeInputData_custom) auto
    moreover have "sortedEdges (?inc p) = sortedEdges (?inc p')"
      unfolding sortedEdges_def using mi d by (rule sort_key_distinct_perm)
    ultimately show ?thesis using main by simp
  qed
  have call: "executeCustom env node (getNodeInputData node p nr) =
             (case userFunction env (the (customCode (node_config node)))
                     (map (\<lambda>e. resultOf nr (edge_source e)) (sortedEdges (?inc p))) of
                ReturnedArray rows \<Rightarrow> Inr rows
              | ReturnedNonArray \<Rightarrow> Inl (CustomCodeFailed ''Custom function must return an array'')
              | Threw m \<Rightarrow> Inl (CustomCodeFailed m)
              | ThrewNonError \<Rightarrow> Inl (CustomCodeFailed ''Unknown error''))"
    if "truthyStr (customCode (node_config node))" "\<not> blank (the (customCode (node_config node)))"
    using that by (simp add: main executeCustom_calls_userFunction)
  have stable: "filter (\<lambda>e. handleOf e = h) (sortedEdges (?inc p))
            = filter (\<lambda>e. handleOf e = h) (?inc p)" for h
    unfolding sortedEdges_def by (rule sort_key_stable)
  show ?thesis
    using main perm call stable two
    by (simp add: sortedEdges_def)
qed

theorem custom_inputs_sorted_by_handle_witness:
  "node_type customNode = ''custom''
   \<and> length (filter (\<lambda>e. edge_target e = node_id customNode)
        (edges (mkPipeline [] [mkEdge ''a'' ''c'' (Some ''input-1''),
                               mkEdge ''b'' ''c'' (Some ''input-0'')]))) = 2
   \<and> getNodeInputData customNode
        (mkPipeline [] [mkEdge ''a'' ''c'' (Some ''input-1''), mkEdge ''b'' ''c'' (Some ''input-0'')])
        resultsAB
       = Multi [rowsB, rowsA]
   \<and> executeCustom demoPlatform customNode
        (getNodeInputData customNode
          (mkPipeline [] [mkEdge ''a'' ''c'' (Some ''input-1''), mkEdge ''b'' ''c'' (Some ''input-0'')])
          resultsAB)
       = Inr (rowsB @ rowsA)"
proof -
  let ?p = "mkPipeline [] [mkEdge ''a'' ''c'' (Some ''input-1''), mkEdge ''b'' ''c'' (Some ''input-0'')]"
  have ty: "node_type customNode = ''custom''"
    by (simp add: customNode_def mkNode_def)
  have inc: "filter (\<lambda>e. edge_target e = node_id customNode) (edges ?p)
      = [mkEdge ''a'' ''c'' (Some ''input-1''), mkEdge ''b'' ''c'' (Some ''input-0'')]"
    by (simp add: customNode_def mkNode_def mkPipeline_def mkEdge_def)
  have len: "length (filter (\<lambda>e. edge_target e = node_id customNode) (edges ?p)) \<ge> 2"
    by (simp add: inc)
  have code: "truthyStr (customCode (node_config customNode))"
      "\<not> blank (the (customCode (node_config customNode)))"
    by (simp_all add: customNode_def mkNode_def emptyConfig_def truthyStr_def blank_def
        isWhiteSpace_def)
  have uf: "userFunction demoPlatform src args = ReturnedArray (concat args)" for src args
    by (simp add: demoPlatform_def js_runtime.extend_def platform.fields_def)
  have res: "resultOf resultsAB (edge_source (mkEdge ''a'' ''c'' h)) = rowsA"
      "resultOf resultsAB (edge_source (mkEdge ''b'' ''c'' h)) = rowsB" for h
    by (simp_all add: resultOf_def resultsAB_def mkEdge_def)
  note t = custom_inputs_sorted_by_handle[OF ty len, of resultsAB demoPlatform "''a''" "''b''"]
  note srt = sorted_input_1_0[of "''a''" "''c''" "''b''"]
  from t have g: "getNodeInputData customNode ?p resultsAB = Multi [rowsB, rowsA]"
    by (simp add: inc srt res)
  from t code have "executeCustom demoPlatform customNode (getNodeInputData customNode ?p resultsAB)
      = (case userFunction demoPlatform (the (customCode (node_config customNode)))
                (map (\<lambda>e. resultOf resultsAB (edge_source e))
                   (sortedEdges (filter (\<lambda>e. edge_target e = node_id customNode) (edges ?p)))) of
           ReturnedArray rows \<Rightarrow> Inr rows
         | ReturnedNonArray \<Rightarrow> Inl (CustomCodeFailed ''Custom function must return an array'')
         | Threw m \<Rightarrow> Inl (CustomCodeFailed m)
         | ThrewNonError \<Rightarrow> Inl (CustomCodeFailed ''Unknown error''))"
    by blast
  then have "executeCustom demoPlatform customNode (getNodeInputData customNode ?p resultsAB)
      = Inr (rowsB @ rowsA)"
    by (simp add: inc srt res uf)
  then show ?thesis using ty inc g by simp
qed

section \<open>Reachability\<close>

lemma visitR_grows:
  "set visited \<subseteq> set (visitR es n visited)"
  "set visited \<subseteq> set (visitRs es out visited)"
  by (induction es n visited and es out visited rule: visitR_visitRs.induct) auto

lemma visitR_sound:
  "set (visitR es n visited) \<subseteq> set visited \<union> (edgeRel es)\<^sup>* `` {n}"
  "set (visitRs es out visited) \<subseteq> set visited \<union> (edgeRel es)\<^sup>* `` (edge_target ` set out)"
proof (induction es n visited and es out visited rule: visitR_visitRs.induct)
  case (1 es n visited)
  show ?case
  proof (cases "n \<in> set visited")
    case True
    then show ?thesis by simp
  next
    case False
    let ?out = "filter (\<lambda>e. edge_source e = n) es"
    have "set (visitRs es ?out (visited @ [n]))
        \<subseteq> set (visited @ [n]) \<union> (edgeRel es)\<^sup>* `` (edge_target ` set ?out)"
      using 1[OF False] by simp
    moreover have "(edgeRel es)\<^sup>* `` (edge_target ` set ?out) \<subseteq> (edgeRel es)\<^sup>* `` {n}"
    proof
      fix v assume "v \<in> (edgeRel es)\<^sup>* `` (edge_target ` set ?out)"
      then obtain e where e: "e \<in> set es" "edge_source e = n" "(edge_target e, v) \<in> (edgeRel es)\<^sup>*"
        by auto
      then have "(n, edge_target e) \<in> edgeRel es" by (force simp: edgeRel_def)
      with e(3) show "v \<in> (edgeRel es)\<^sup>* `` {n}" by (auto intro: converse_rtrancl_into_rtrancl)
    qed
    ultimately show ?thesis using False by auto
  qed
next
  case (2 es visited)
  then show ?case by simp
next
  case (3 es e outgoing visited)
  have a: "set (visitR es (edge_target e) visited) \<subseteq> set visited \<union> (edgeRel es)\<^sup>* `` {edge_target e}"
    by (rule 3(1))
  have b: "set (visitRs es outgoing (visitR es (edge_target e) visited))
      \<subseteq> set (visitR es (edge_target e) visited) \<union> (edgeRel es)\<^sup>* `` (edge_target ` set outgoing)"
    by (rule 3(2))
  show ?case using a b by (auto simp del: visitR.simps)
qed

lemma visitR_closed:
  "\<forall>G. closedExcept es visited G \<longrightarrow>
       closedExcept es (visitR es n visited) G \<and> n \<in> set (visitR es n visited)"
  "\<forall>G. closedExcept es visited G \<longrightarrow>
       closedExcept es (visitRs es out visited) G
       \<and> edge_target ` set out \<subseteq> set (visitRs es out visited)"
proof (induction es n visited and es out visited rule: visitR_visitRs.induct)
  case (1 es n visited)
  show ?case
  proof (cases "n \<in> set visited")
    case True
    then show ?thesis by simp
  next
    case False
    let ?out = "filter (\<lambda>e. edge_source e = n) es"
    let ?r = "visitRs es ?out (visited @ [n])"
    show ?thesis
    proof (intro allI impI)
      fix G assume c: "closedExcept es visited G"
      then have "closedExcept es (visited @ [n]) (insert n G)"
        by (auto simp: closedExcept_def)
      with 1[OF False] have ih: "closedExcept es ?r (insert n G)" "edge_target ` set ?out \<subseteq> set ?r"
        by blast+
      have nin: "n \<in> set ?r" using visitR_grows(2)[of "visited @ [n]" es ?out] by auto
      have "closedExcept es ?r G"
        unfolding closedExcept_def
      proof (intro ballI impI)
        fix e assume e: "e \<in> set es" "edge_source e \<in> set ?r - G"
        show "edge_target e \<in> set ?r"
        proof (cases "edge_source e = n")
          case True
          then have "e \<in> set ?out" using e by simp
          then show ?thesis using ih(2) by blast
        next
          case False
          then show ?thesis using ih(1) e by (auto simp: closedExcept_def)
        qed
      qed
      then show "closedExcept es (visitR es n visited) G \<and> n \<in> set (visitR es n visited)"
        using False nin by simp
    qed
  qed
next
  case (2 es visited)
  then show ?case by simp
next
  case (3 es e outgoing visited)
  show ?case
  proof (intro allI impI)
    fix G assume c: "closedExcept es visited G"
    let ?v = "visitR es (edge_target e) visited"
    have a: "closedExcept es ?v G" "edge_target e \<in> set ?v" using 3(1) c by blast+
    have b: "closedExcept es (visitRs es outgoing ?v) G"
       "edge_target ` set outgoing \<subseteq> set (visitRs es outgoing ?v)"
      using 3(2) a(1) by blast+
    have "edge_target e \<in> set (visitRs es outgoing ?v)"
      using a(2) visitR_grows(2)[of ?v es outgoing] by blast
    then show "closedExcept es (visitRs es (e # outgoing) visited) G \<and>
         edge_target ` set (e # outgoing) \<subseteq> set (visitRs es (e # outgoing) visited)"
      using b by (simp del: visitR.simps)
  qed
qed

lemma findReachableNodes_set:
  "set (findReachableNodes p s) = (edgeRel (edges p))\<^sup>* `` {s}"
proof
  show "set (findReachableNodes p s) \<subseteq> (edgeRel (edges p))\<^sup>* `` {s}"
    using visitR_sound(1)[of "edges p" s "[]"] by (simp add: findReachableNodes_def)
next
  let ?R = "set (findReachableNodes p s)"
  have c: "closedExcept (edges p) (findReachableNodes p s) {}" and s: "s \<in> ?R"
    using visitR_closed(1)[of "edges p" "[]" s]
    by (auto simp: findReachableNodes_def closedExcept_def)
  have "v \<in> ?R" if "(s, v) \<in> (edgeRel (edges p))\<^sup>*" for v
    using that
  proof (induction rule: rtrancl_induct)
    case base
    then show ?case by (rule s)
  next
    case (step y z)
    then obtain e where "e \<in> set (edges p)" "edge_source e = y" "edge_target e = z"
      by (auto simp: edgeRel_def)
    then show ?case using c step.IH by (auto simp: closedExcept_def)
  qed
  then show "(edgeRel (edges p))\<^sup>* `` {s} \<subseteq> ?R" by auto
qed

lemma set_foldl_setAdd: "set (foldl (\<lambda>a x. setAdd x a) acc xs) = set acc \<union> set xs"
  by (induction xs arbitrary: acc) (auto simp: setAdd_def)

lemma reachableNodes_set:
  "set (reachableNodes p) = (edgeRel (edges p))\<^sup>* `` (node_id ` set (dataSourceNodes p))"
proof -
  have "set (foldl (\<lambda>acc n. foldl (\<lambda>a x. setAdd x a) acc (findReachableNodes p (node_id n))) acc ns)
      = set acc \<union> (edgeRel (edges p))\<^sup>* `` (node_id ` set ns)"
    for acc and ns :: "PipelineNode list"
    by (induction ns arbitrary: acc) (auto simp: set_foldl_setAdd findReachableNodes_set)
  from this[of "[]" "dataSourceNodes p"] show ?thesis
    unfolding reachableNodes_def by simp
qed

section \<open>Topological order\<close>

lemma stepOk_refl: "stepOk reach s s"
  by (simp add: stepOk_def)

lemma stepOk_trans:
  assumes "stepOk reach s s1" "stepOk reach s1 s2"
  shows "stepOk reach s s2"
proof -
  from assms(1) obtain n1 where n1: "snd s1 = snd s @ n1" "distinct n1"
      "set n1 \<subseteq> set reach - set (fst s)" "set n1 \<subseteq> set (fst s1)"
    unfolding stepOk_def by blast
  from assms(2) obtain n2 where n2: "snd s2 = snd s1 @ n2" "distinct n2"
      "set n2 \<subseteq> set reach - set (fst s1)" "set n2 \<subseteq> set (fst s2)"
    unfolding stepOk_def by blast
  have sub: "set (fst s) \<subseteq> set (fst s1)" "set (fst s1) \<subseteq> set (fst s2)"
    using assms unfolding stepOk_def by blast+
  have "snd s2 = snd s @ (n1 @ n2)" using n1 n2 by simp
  moreover have "distinct (n1 @ n2)" using n1 n2 by auto
  moreover have "set (n1 @ n2) \<subseteq> set reach - set (fst s)" using n1 n2 sub by auto
  moreover have "set (n1 @ n2) \<subseteq> set (fst s2)" using n1 n2 sub by auto
  ultimately have "\<exists>new. snd s2 = snd s @ new \<and> distinct new
             \<and> set new \<subseteq> set reach - set (fst s) \<and> set new \<subseteq> set (fst s2)"
    by blast
  then show ?thesis
    using assms unfolding stepOk_def by blast
qed

lemma visitT_ok:
  "stepOk reach s (visitT es reach n s)
     \<and> (n \<in> set reach \<longrightarrow> n \<in> set (fst (visitT es reach n s)))"
  "stepOk reach s (visitTs es reach inc s)
     \<and> (\<forall>e \<in> set inc. edge_source e \<in> set reach \<longrightarrow>
           edge_source e \<in> set (fst (visitTs es reach inc s)))"
proof (induction es reach n s and es reach inc s rule: visitT_visitTs.induct)
  case (1 es reach n visited result)
  show ?case
  proof (cases "n \<in> set visited \<or> n \<notin> set reach")
    case True
    then show ?thesis by (auto simp: stepOk_refl)
  next
    case False
    let ?inc = "filter (\<lambda>e. edge_target e = n) es"
    obtain v' r' where inner: "visitTs es reach ?inc (visited @ [n], result) = (v', r')"
      by (cases "visitTs es reach ?inc (visited @ [n], result)")
    have ih: "stepOk reach (visited @ [n], result) (v', r')"
      using 1 False inner by auto
    then obtain new where new: "r' = result @ new" "distinct new"
      "set new \<subseteq> set reach - set (visited @ [n])" "set new \<subseteq> set v'"
      unfolding stepOk_def by auto
    have res: "visitT es reach n (visited, result) = (v', r' @ [n])"
      using False inner by simp
    have sub: "set (visited @ [n]) \<subseteq> set v'" "set v' \<subseteq> set (visited @ [n]) \<union> set reach"
      "set v' - set r' = set (visited @ [n]) - set result"
      using ih unfolding stepOk_def by auto
    have "r' @ [n] = result @ (new @ [n])" using new by simp
    moreover have "distinct (new @ [n])" using new by auto
    moreover have "set (new @ [n]) \<subseteq> set reach - set visited" using new False by auto
    moreover have "set (new @ [n]) \<subseteq> set v'" using new sub by auto
    ultimately have ex: "\<exists>nw. r' @ [n] = result @ nw \<and> distinct nw
        \<and> set nw \<subseteq> set reach - set visited \<and> set nw \<subseteq> set v'"
      by blast
    have gray: "set v' - set (r' @ [n]) = set visited - set result"
      using sub(3) False by auto
    have "stepOk reach (visited, result) (v', r' @ [n])"
      unfolding stepOk_def using ex gray sub False by auto
    moreover have "n \<in> set v'" using sub by auto
    ultimately show ?thesis by (simp only: res fst_conv) simp
  qed
next
  case (2 es reach s)
  then show ?case by (simp add: stepOk_refl)
next
  case (3 es reach e incoming s)
  let ?s1 = "visitT es reach (edge_source e) s"
  have a: "stepOk reach s ?s1" "edge_source e \<in> set reach \<longrightarrow> edge_source e \<in> set (fst ?s1)"
    using 3(1) by blast+
  have b: "stepOk reach ?s1 (visitTs es reach incoming ?s1)"
    "\<forall>e' \<in> set incoming. edge_source e' \<in> set reach \<longrightarrow>
           edge_source e' \<in> set (fst (visitTs es reach incoming ?s1))"
    using 3(2) by blast+
  have "set (fst ?s1) \<subseteq> set (fst (visitTs es reach incoming ?s1))"
    using b(1) unfolding stepOk_def by blast
  then show ?case
    using stepOk_trans[OF a(1) b(1)] a(2) b(2) by (auto simp del: visitT.simps)
qed

lemma foldl_visitT_ok:
  "stepOk reach s (foldl (\<lambda>s x. visitT es reach (f x) s) s xs)
   \<and> (\<forall>x \<in> set xs. f x \<in> set reach \<longrightarrow>
          f x \<in> set (fst (foldl (\<lambda>s x. visitT es reach (f x) s) s xs)))"
proof (induction xs arbitrary: s)
  case Nil
  then show ?case by (simp add: stepOk_refl)
next
  case (Cons x xs)
  let ?s1 = "visitT es reach (f x) s"
  let ?s2 = "foldl (\<lambda>s x. visitT es reach (f x) s) ?s1 xs"
  have a: "stepOk reach s ?s1" "f x \<in> set reach \<longrightarrow> f x \<in> set (fst ?s1)"
    using visitT_ok(1)[of reach s es "f x"] by blast+
  have b: "stepOk reach ?s1 ?s2" "\<forall>y \<in> set xs. f y \<in> set reach \<longrightarrow> f y \<in> set (fst ?s2)"
    using Cons[of ?s1] by blast+
  have "set (fst ?s1) \<subseteq> set (fst ?s2)" using b(1) unfolding stepOk_def by blast
  then show ?case
    using stepOk_trans[OF a(1) b(1)] a(2) b(2) by (auto simp del: visitT.simps)
qed

lemma topologicalSort_sortState: "topologicalSort p reach = snd (sortState p reach)"
  by (simp add: topologicalSort_def sortState_def Let_def)

lemma sortState_ok:
  "stepOk reach ([], []) (sortState p reach)" "set reach \<subseteq> set (fst (sortState p reach))"
proof -
  let ?s1 = "foldl (\<lambda>s n. visitT (edges p) reach (node_id n) s) ([], []) (noIncomingEdges p reach)"
  have a: "stepOk reach ([], []) ?s1"
    using foldl_visitT_ok[of reach "([], [])" "edges p" node_id] by blast
  have b: "stepOk reach ?s1 (sortState p reach)"
    "\<forall>x \<in> set reach. x \<in> set reach \<longrightarrow> x \<in> set (fst (sortState p reach))"
    using foldl_visitT_ok[of reach ?s1 "edges p" "\<lambda>x. x" reach]
    unfolding sortState_def by blast+
  show "stepOk reach ([], []) (sortState p reach)" using stepOk_trans[OF a b(1)] .
  show "set reach \<subseteq> set (fst (sortState p reach))" using b(2) by blast
qed

lemma topologicalSort_set:
  "set (topologicalSort p reach) = set reach" "distinct (topologicalSort p reach)"
proof -
  from sortState_ok(1)[of reach p] obtain new where
    new: "snd (sortState p reach) = new" "distinct new" "set new \<subseteq> set reach"
      and g: "set (fst (sortState p reach)) - set (snd (sortState p reach)) = {}"
    unfolding stepOk_def by auto
  show "distinct (topologicalSort p reach)"
    using new by (simp add: topologicalSort_sortState)
  show "set (topologicalSort p reach) = set reach"
    using new g sortState_ok(2)[of reach p] by (auto simp: topologicalSort_sortState)
qed

lemma ordered_snoc:
  assumes "ordered P res" "\<forall>u. (u, n) \<in> P \<longrightarrow> u \<in> set res"
  shows "ordered P (res @ [n])"
  unfolding ordered_def
proof (intro allI impI)
  fix i u assume i: "i < length (res @ [n])" and u: "(u, (res @ [n]) ! i) \<in> P"
  show "u \<in> set (take i (res @ [n]))"
  proof (cases "i < length res")
    case True
    then show ?thesis using assms(1) u by (auto simp: ordered_def nth_append)
  next
    case False
    then have "i = length res" using i by simp
    then show ?thesis using assms(2) u by simp
  qed
qed

lemma stepOk_gray: "stepOk reach s s' \<Longrightarrow> gray s' = gray s"
  by (simp add: stepOk_def gray_def)

lemma visitT_ordered:
  "acyclic (predRel es reach) \<longrightarrow> ordered (predRel es reach) (snd s)
     \<longrightarrow> (n \<in> set reach \<longrightarrow> (\<forall>g \<in> gray s. (n, g) \<in> (predRel es reach)\<^sup>*))
     \<longrightarrow> ordered (predRel es reach) (snd (visitT es reach n s))"
  "acyclic (predRel es reach) \<longrightarrow> ordered (predRel es reach) (snd s)
     \<longrightarrow> (\<forall>e \<in> set inc. edge_source e \<in> set reach \<longrightarrow>
            (\<forall>g \<in> gray s. (edge_source e, g) \<in> (predRel es reach)\<^sup>*))
     \<longrightarrow> ordered (predRel es reach) (snd (visitTs es reach inc s))"
proof (induction es reach n s and es reach inc s rule: visitT_visitTs.induct)
  case (1 es reach n visited result)
  let ?P = "predRel es reach"
  show ?case
  proof (cases "n \<in> set visited \<or> n \<notin> set reach")
    case True
    then show ?thesis by auto
  next
    case False
    let ?inc = "filter (\<lambda>e. edge_target e = n) es"
    let ?s1 = "(visited @ [n], result)"
    obtain v' r' where inner: "visitTs es reach ?inc ?s1 = (v', r')"
      by (cases "visitTs es reach ?inc ?s1")
    have res: "visitT es reach n (visited, result) = (v', r' @ [n])"
      using False inner by simp
    show ?thesis
    proof (intro impI)
      assume ac: "acyclic ?P" and ord: "ordered ?P (snd (visited, result))"
        and gr: "n \<in> set reach \<longrightarrow> (\<forall>g \<in> gray (visited, result). (n, g) \<in> ?P\<^sup>*)"
      have g1: "gray ?s1 \<subseteq> insert n (gray (visited, result))"
        by (auto simp: gray_def)
      have pre: "\<forall>e \<in> set ?inc. edge_source e \<in> set reach \<longrightarrow>
            (\<forall>g \<in> gray ?s1. (edge_source e, g) \<in> ?P\<^sup>*)"
      proof (intro ballI impI)
        fix e g assume e: "e \<in> set ?inc" "edge_source e \<in> set reach" and g: "g \<in> gray ?s1"
        have en: "(edge_source e, n) \<in> ?P"
          using e False by (force simp: predRel_def edgeRel_def)
        show "(edge_source e, g) \<in> ?P\<^sup>*"
        proof (cases "g = n")
          case True
          then show ?thesis using en by auto
        next
          case False
          then have "(n, g) \<in> ?P\<^sup>*" using g g1 gr \<open>\<not> (n \<in> set visited \<or> n \<notin> set reach)\<close> by auto
          then show ?thesis using en by (auto intro: converse_rtrancl_into_rtrancl)
        qed
      qed
      have o1: "ordered ?P r'"
        using 1 False ac ord pre inner by auto
      have ok: "stepOk reach ?s1 (v', r')"
        "\<forall>e \<in> set ?inc. edge_source e \<in> set reach \<longrightarrow> edge_source e \<in> set v'"
        using visitT_ok(2)[of reach ?s1 es ?inc] inner by auto
      have g2: "gray (v', r') \<subseteq> insert n (gray (visited, result))"
        using stepOk_gray[OF ok(1)] g1 by simp
      have "\<forall>u. (u, n) \<in> ?P \<longrightarrow> u \<in> set r'"
      proof (intro allI impI)
        fix u assume un: "(u, n) \<in> ?P"
        then obtain e where e: "e \<in> set es" "edge_source e = u" "edge_target e = n" "u \<in> set reach"
          by (auto simp: predRel_def edgeRel_def)
        then have uv: "u \<in> set v'" using ok(2) by auto
        show "u \<in> set r'"
        proof (rule ccontr)
          assume "u \<notin> set r'"
          then have "u \<in> gray (v', r')" using uv by (simp add: gray_def)
          then have "u = n \<or> u \<in> gray (visited, result)" using g2 by auto
          then have "(n, u) \<in> ?P\<^sup>*" using gr False by auto
          then have "(u, u) \<in> ?P\<^sup>+" using un by (rule rtrancl_into_trancl2[rotated])
          then show False using ac by (auto simp: acyclic_def)
        qed
      qed
      with o1 have "ordered ?P (r' @ [n])" by (rule ordered_snoc)
      then show "ordered ?P (snd (visitT es reach n (visited, result)))"
        by (simp only: res snd_conv)
    qed
  qed
next
  case (2 es reach s)
  then show ?case by simp
next
  case (3 es reach e incoming s)
  let ?P = "predRel es reach"
  let ?s1 = "visitT es reach (edge_source e) s"
  show ?case
  proof (intro impI)
    assume ac: "acyclic ?P" and ord: "ordered ?P (snd s)"
      and gr: "\<forall>e' \<in> set (e # incoming). edge_source e' \<in> set reach \<longrightarrow>
            (\<forall>g \<in> gray s. (edge_source e', g) \<in> ?P\<^sup>*)"
    have o1: "ordered ?P (snd ?s1)" using 3(1) ac ord gr by simp
    have "gray ?s1 = gray s"
      using visitT_ok(1)[of reach s es "edge_source e"] stepOk_gray by blast
    then have "ordered ?P (snd (visitTs es reach incoming ?s1))"
      using 3(2) ac o1 gr by simp
    then show "ordered ?P (snd (visitTs es reach (e # incoming) s))"
      by (simp del: visitT.simps)
  qed
qed

lemma foldl_visitT_ordered:
  assumes "acyclic (predRel es reach)"
  shows "ordered (predRel es reach) (snd s) \<Longrightarrow> gray s = {} \<Longrightarrow>
     ordered (predRel es reach) (snd (foldl (\<lambda>s x. visitT es reach (f x) s) s xs))
     \<and> gray (foldl (\<lambda>s x. visitT es reach (f x) s) s xs) = {}"
proof (induction xs arbitrary: s)
  case Nil
  then show ?case by simp
next
  case (Cons x xs)
  let ?s1 = "visitT es reach (f x) s"
  have "ordered (predRel es reach) (snd ?s1)"
    using visitT_ordered(1)[of es reach s "f x"] assms Cons.prems by simp
  moreover have "gray ?s1 = {}"
    using visitT_ok(1)[of reach s es "f x"] stepOk_gray Cons.prems(2) by blast
  ultimately show ?case using Cons.IH[of ?s1] by (simp del: visitT.simps)
qed

lemma topologicalSort_ordered:
  assumes "acyclic (predRel (edges p) reach)"
  shows "ordered (predRel (edges p) reach) (topologicalSort p reach)"
proof -
  let ?s1 = "foldl (\<lambda>s n. visitT (edges p) reach (node_id n) s) ([], []) (noIncomingEdges p reach)"
  have a: "ordered (predRel (edges p) reach) (snd ?s1) \<and> gray ?s1 = {}"
    using foldl_visitT_ordered[OF assms, of "([], [])" node_id "noIncomingEdges p reach"]
    by (simp add: ordered_def gray_def)
  have "ordered (predRel (edges p) reach) (snd (sortState p reach))"
    unfolding sortState_def
    using foldl_visitT_ordered[OF assms, of ?s1 "\<lambda>x. x" reach] a by blast
  then show ?thesis by (simp add: topologicalSort_sortState)
qed

text \<open>The node-execution loop.\<close>

lemma runNodes_append:
  "runNodes env p (xs @ ys) nr =
     (case runNodes env p xs nr of Inl err \<Rightarrow> Inl err | Inr nr' \<Rightarrow> runNodes env p ys nr')"
  by (induction xs arbitrary: nr) (auto split: option.splits sum.splits)

lemma runNodes_keys:
  "runNodes env p xs nr = Inr nr' \<Longrightarrow>
     fst ` set nr' = fst ` set nr \<union> (set xs \<inter> node_id ` set (nodes p))"
proof (induction xs arbitrary: nr)
  case Nil
  then show ?case by auto
next
  case (Cons x xs)
  show ?case
  proof (cases "find (\<lambda>n. node_id n = x) (nodes p)")
    case None
    then have "x \<notin> node_id ` set (nodes p)" by (auto simp: find_None_iff)
    moreover have "runNodes env p xs nr = Inr nr'" using Cons.prems None by simp
    ultimately show ?thesis using Cons.IH by auto
  next
    case (Some node)
    then have x: "x \<in> node_id ` set (nodes p)" by (auto simp: find_Some_iff)
    from Cons.prems Some obtain out where
      "runNodes env p xs (AList.update x out nr) = Inr nr'"
      by (auto split: sum.splits)
    from Cons.IH[OF this] show ?thesis using x by (auto simp: AList.dom_update)
  qed
qed

section \<open>Executed nodes\<close>

lemma reachableNodes_spec: "set (reachableNodes p) = reachableFromSources p"
  by (auto simp: reachableNodes_set reachableFromSources_def dataSourceNodes_def)

lemma runPipeline_keys:
  assumes "\<forall>e \<in> set (edges p). edge_source e \<in> node_id ` set (nodes p)
              \<and> edge_target e \<in> node_id ` set (nodes p)"
    and "runPipeline env p = Inr (nr, leafs)"
  shows "fst ` set nr = reachableFromSources p"
proof -
  let ?order = "topologicalSort p (reachableNodes p)"
  have run: "runNodes env p ?order [] = Inr nr"
    using assms(2) by (auto simp: runPipeline_def Let_def split: if_splits sum.splits)
  have "reachableFromSources p \<subseteq> node_id ` set (nodes p)"
  proof
    fix v assume "v \<in> reachableFromSources p"
    then obtain n where n: "n \<in> set (nodes p)" "(node_id n, v) \<in> (edgeRel (edges p))\<^sup>*"
      by (auto simp: reachableFromSources_def)
    from n(2) show "v \<in> node_id ` set (nodes p)"
    proof (cases rule: rtranclE)
      case base
      then show ?thesis using n(1) by auto
    next
      case (step y)
      then show ?thesis using assms(1) by (auto simp: edgeRel_def)
    qed
  qed
  then show ?thesis
    using runNodes_keys[OF run] topologicalSort_set(1)[of p "reachableNodes p"]
    by (auto simp: reachableNodes_spec)
qed

lemma runPipeline_ownKeys:
  assumes "\<forall>e \<in> set (edges p). edge_source e \<in> node_id ` set (nodes p)
              \<and> edge_target e \<in> node_id ` set (nodes p)"
    and "runPipeline env p = Inr (nr, leafs)"
  shows "set (ownKeys nr) = reachableFromSources p - {''__proto__''}"
proof -
  have "set (ownKeys nr) = fst ` set nr - {''__proto__''}"
    by (force simp: ownKeys_def ownEntries_def)
  then show ?thesis using runPipeline_keys[OF assms] by simp
qed

text \<open>
  For a pipeline whose edges reference existing node ids, the reachable nodes the engine
  computes, and its execution order, in which no node occurs twice, are exactly the
  nodes reachable by a directed path from a node of type \<open>dataSource\<close>; an execution
  that was not served from the cache and succeeded returns node results whose keys are
  those nodes, the name \<open>__proto__\<close> excepted.
\<close>

lemma nodeResults_ownKeys:
  assumes "\<forall>e \<in> set (edges p). edge_source e \<in> node_id ` set (nodes p)
              \<and> edge_target e \<in> node_id ` set (nodes p)"
  shows "(\<not> cached (fst (execute env w p uc)) \<and> status (fst (execute env w p uc)) = ''success'' \<longrightarrow>
          (\<exists>nr. nodeResults (fst (execute env w p uc)) = Some nr
                \<and> set (ownKeys nr) = reachableFromSources p - {''__proto__''}))
     \<and> set (reachableNodes p) = reachableFromSources p
     \<and> set (topologicalSort p (reachableNodes p)) = reachableFromSources p
     \<and> distinct (topologicalSort p (reachableNodes p))"
proof -
  have b: "\<exists>nr. nodeResults (fst (execute env w p uc)) = Some nr
                \<and> set (ownKeys nr) = reachableFromSources p - {''__proto__''}"
    if nc: "\<not> cached (fst (execute env w p uc))"
      and st: "status (fst (execute env w p uc)) = ''success''"
  proof -
    from st nc obtain nr leafs where r: "runPipeline env p = Inr (nr, leafs)"
      by (auto simp: execute_status split: sum.splits if_splits)
    then show ?thesis using execute_fresh(1)[OF r nc] runPipeline_ownKeys[OF assms r] by blast
  qed
  show ?thesis
    using b topologicalSort_set[of p "reachableNodes p"]
    by (simp add: reachableNodes_spec)
qed

lemma runPipeline_orphan:
  "runPipeline demoPlatform orphanPipeline =
     Inr ([(''src'', scenarioRows), (''flt'', scenarioRows)],
          [\<lparr> leaf_nodeId = ''flt'', leaf_nodeLabel = ''flt'', leaf_nodeType = ''filter'',
             leaf_data = scenarioRows \<rparr>])"
proof -
  have r: "reachableNodes orphanPipeline = [''src'', ''flt'']"
    by (simp add: reachableNodes_def orphanPipeline_def mkPipeline_def dataSourceNodes_def
        mkNode_def mkEdge_def findReachableNodes_def setAdd_def)
  have t: "topologicalSort orphanPipeline [''src'', ''flt''] = [''src'', ''flt'']"
    by (simp add: topologicalSort_def noIncomingEdges_def orphanPipeline_def mkPipeline_def
        mkNode_def mkEdge_def)
  have l: "findLeafNodes orphanPipeline [''src'', ''flt''] = [''flt'']"
    by (simp add: findLeafNodes_def orphanPipeline_def mkPipeline_def mkNode_def mkEdge_def)
  have n: "runNodes demoPlatform orphanPipeline [''src'', ''flt''] []
      = Inr [(''src'', scenarioRows), (''flt'', scenarioRows)]"
    using demoPlatform_db1
    by (simp add: orphanPipeline_def mkPipeline_def mkNode_def mkEdge_def emptyConfig_def
        executeNode_def executeDataSource_def truthyStr_def getNodeInputData_def
        executeFilter_def singleInput_def resultOf_def)
  have c: "collectLeafResults orphanPipeline [(''src'', scenarioRows), (''flt'', scenarioRows)] [''flt'']
      = Inr [\<lparr> leaf_nodeId = ''flt'', leaf_nodeLabel = ''flt'', leaf_nodeType = ''filter'',
             leaf_data = scenarioRows \<rparr>]"
    by (simp add: orphanPipeline_def mkPipeline_def mkNode_def resultOf_def)
  have ds: "length (dataSourceNodes orphanPipeline) \<noteq> 0"
    by (simp add: dataSourceNodes_def orphanPipeline_def mkPipeline_def mkNode_def)
  show ?thesis
    unfolding runPipeline_def using ds
    by (simp add: r t l n c del: runNodes.simps collectLeafResults.simps)
qed

text \<open>Two nodes that no data source reaches are not run and have no key.\<close>

lemma orphan_nodes_have_no_key:
  "ownKeys (the (nodeResults (fst (execute demoPlatform freshWorld orphanPipeline False))))
     = [''src'', ''flt'']
   \<and> reachableFromSources orphanPipeline = {''src'', ''flt''}"
proof -
  have h: "\<forall>e \<in> set (edges orphanPipeline). edge_source e \<in> node_id ` set (nodes orphanPipeline)
              \<and> edge_target e \<in> node_id ` set (nodes orphanPipeline)"
    by (simp add: orphanPipeline_def mkPipeline_def mkNode_def mkEdge_def)
  have ex: "nodeResults (fst (execute demoPlatform freshWorld orphanPipeline False))
       = Some [(''src'', scenarioRows), (''flt'', scenarioRows)]"
    by (simp add: execute_def now_def runPipeline_orphan successResult_def)
  have k: "ownKeys [(''src'', scenarioRows), (''flt'', scenarioRows)] = [''src'', ''flt'']"
    by (simp add: ownKeys_def ownEntries_def)
  have "set (ownKeys [(''src'', scenarioRows), (''flt'', scenarioRows)])
          = reachableFromSources orphanPipeline - {''__proto__''}"
    by (rule runPipeline_ownKeys[OF h runPipeline_orphan])
  moreover have "''__proto__'' \<notin> reachableFromSources orphanPipeline"
    by (simp add: reachableNodes_spec[symmetric] reachableNodes_def orphanPipeline_def
        mkPipeline_def dataSourceNodes_def mkNode_def mkEdge_def findReachableNodes_def setAdd_def)
  ultimately have "reachableFromSources orphanPipeline = {''src'', ''flt''}"
    unfolding k by auto
  then show ?thesis by (simp add: ex k)
qed

lemma runPipeline_proto:
  "runPipeline demoPlatform protoPipeline =
     Inr ([(''__proto__'', scenarioRows), (''f'', scenarioRows)],
          [\<lparr> leaf_nodeId = ''f'', leaf_nodeLabel = ''f'', leaf_nodeType = ''filter'',
             leaf_data = scenarioRows \<rparr>])"
proof -
  have r: "reachableNodes protoPipeline = [''__proto__'', ''f'']"
    by (simp add: reachableNodes_def protoPipeline_def mkPipeline_def dataSourceNodes_def
        mkNode_def mkEdge_def findReachableNodes_def setAdd_def)
  have t: "topologicalSort protoPipeline [''__proto__'', ''f''] = [''__proto__'', ''f'']"
    by (simp add: topologicalSort_def noIncomingEdges_def protoPipeline_def mkPipeline_def
        mkNode_def mkEdge_def)
  have l: "findLeafNodes protoPipeline [''__proto__'', ''f''] = [''f'']"
    by (simp add: findLeafNodes_def protoPipeline_def mkPipeline_def mkNode_def mkEdge_def)
  have n: "runNodes demoPlatform protoPipeline [''__proto__'', ''f''] []
      = Inr [(''__proto__'', scenarioRows), (''f'', scenarioRows)]"
    using demoPlatform_db1
    by (simp add: protoPipeline_def mkPipeline_def mkNode_def mkEdge_def emptyConfig_def
        executeNode_def executeDataSource_def truthyStr_def getNodeInputData_def
        executeFilter_def singleInput_def resultOf_def)
  have c: "collectLeafResults protoPipeline [(''__proto__'', scenarioRows), (''f'', scenarioRows)] [''f'']
      = Inr [\<lparr> leaf_nodeId = ''f'', leaf_nodeLabel = ''f'', leaf_nodeType = ''filter'',
             leaf_data = scenarioRows \<rparr>]"
    by (simp add: protoPipeline_def mkPipeline_def mkNode_def resultOf_def)
  have ds: "length (dataSourceNodes protoPipeline) \<noteq> 0"
    by (simp add: dataSourceNodes_def protoPipeline_def mkPipeline_def mkNode_def)
  show ?thesis
    unfolding runPipeline_def using ds
    by (simp add: r t l n c del: runNodes.simps collectLeafResults.simps)
qed

text \<open>
  C2 does not hold of the code for a node whose id is \<open>__proto__\<close>. In the pipeline
  \<open>protoPipeline\<close> a data source node with that id feeds the filter \<open>f\<close>, and both edges'
  ends exist. An execution without the cache succeeds, both nodes are reachable from
  the data source and both are run (the filter receives the source's rows), but storing
  the rows of the node \<open>__proto__\<close> adds no key: the keys of the returned node results are
  \<open>f\<close> alone, not the set of the reachable nodes.
\<close>

theorem proto_node_has_no_key:
  "list_all (\<lambda>e. edge_source e \<in> node_id ` set (nodes protoPipeline)
              \<and> edge_target e \<in> node_id ` set (nodes protoPipeline)) (edges protoPipeline)
   \<and> status (fst (execute demoPlatform freshWorld protoPipeline False)) = ''success''
   \<and> cached (fst (execute demoPlatform freshWorld protoPipeline False)) = False
   \<and> leafResults (fst (execute demoPlatform freshWorld protoPipeline False))
       = Some [\<lparr> leaf_nodeId = ''f'', leaf_nodeLabel = ''f'', leaf_nodeType = ''filter'',
                 leaf_data = scenarioRows \<rparr>]
   \<and> ownKeys (the (nodeResults (fst (execute demoPlatform freshWorld protoPipeline False))))
       = [''f'']
   \<and> reachableFromSources protoPipeline = {''__proto__'', ''f''}
   \<and> set (ownKeys (the (nodeResults (fst (execute demoPlatform freshWorld protoPipeline False)))))
       \<noteq> reachableFromSources protoPipeline"
proof -
  have h: "list_all (\<lambda>e. edge_source e \<in> node_id ` set (nodes protoPipeline)
              \<and> edge_target e \<in> node_id ` set (nodes protoPipeline)) (edges protoPipeline)"
    by (simp add: protoPipeline_def mkPipeline_def mkNode_def mkEdge_def)
  have ex: "fst (execute demoPlatform freshWorld protoPipeline False)
       = successResult protoPipeline [(''__proto__'', scenarioRows), (''f'', scenarioRows)]
           [\<lparr> leaf_nodeId = ''f'', leaf_nodeLabel = ''f'', leaf_nodeType = ''filter'',
              leaf_data = scenarioRows \<rparr>]
           (dateNow demoPlatform 1 - dateNow demoPlatform 0)"
    by (simp add: execute_def now_def runPipeline_proto freshWorld_def)
  have k: "ownKeys [(''__proto__'', scenarioRows), (''f'', scenarioRows)] = [''f'']"
    by (simp add: ownKeys_def ownEntries_def)
  have r: "reachableFromSources protoPipeline = {''__proto__'', ''f''}"
    by (simp add: reachableNodes_spec[symmetric] reachableNodes_def protoPipeline_def
        mkPipeline_def dataSourceNodes_def mkNode_def mkEdge_def findReachableNodes_def setAdd_def)
  have ne: "set [''f''] \<noteq> {''__proto__'', ''f''}"
    by auto
  show ?thesis
    using h ne by (simp add: ex successResult_def k r)
qed

lemma acyclic_by_rank:
  fixes f :: "'a \<Rightarrow> nat"
  assumes "\<And>u v. (u, v) \<in> r \<Longrightarrow> f u < f v"
  shows "acyclic r"
proof -
  have "r \<subseteq> inv_image less_than f" using assms by auto
  moreover have "acyclic (inv_image less_than f)"
    by (intro wf_acyclic wf_inv_image wf_less_than)
  ultimately show ?thesis by (rule acyclic_subset[rotated])
qed

text \<open>
  C3. When the edge relation restricted to the reachable nodes is acyclic, every edge
  u -> v between reachable nodes has u strictly before v in the execution order (in
  which no node occurs twice). The loop reaches v after running the nodes in front of
  it, and when that prefix has run without error the node results it holds at that
  point contain u (provided u names a node of the pipeline, as the data model
  demands).
\<close>

theorem topologicalSort_respects_edges:
  assumes "acyclic (predRel (edges p) (reachableNodes p))"
    and "e \<in> set (edges p)"
    and "edge_source e \<in> set (reachableNodes p)"
    and "edge_target e \<in> set (reachableNodes p)"
  shows "distinct (topologicalSort p (reachableNodes p))
     \<and> (\<exists>i j. i < j \<and> j < length (topologicalSort p (reachableNodes p))
           \<and> topologicalSort p (reachableNodes p) ! i = edge_source e
           \<and> topologicalSort p (reachableNodes p) ! j = edge_target e
           \<and> runNodes env p (topologicalSort p (reachableNodes p)) [] =
               (case runNodes env p (take j (topologicalSort p (reachableNodes p))) [] of
                  Inl err \<Rightarrow> Inl err
                | Inr nr \<Rightarrow> runNodes env p (drop j (topologicalSort p (reachableNodes p))) nr)
           \<and> (edge_source e \<in> node_id ` set (nodes p) \<longrightarrow>
                (\<forall>nr. runNodes env p (take j (topologicalSort p (reachableNodes p))) [] = Inr nr
                     \<longrightarrow> edge_source e \<in> fst ` set nr)))"
proof -
  let ?order = "topologicalSort p (reachableNodes p)"
  let ?P = "predRel (edges p) (reachableNodes p)"
  have ord: "ordered ?P ?order" using assms(1) by (rule topologicalSort_ordered)
  have uv: "(edge_source e, edge_target e) \<in> ?P"
    using assms(2-4) by (auto simp: predRel_def edgeRel_def)
  have "edge_target e \<in> set ?order"
    using assms(4) by (simp add: topologicalSort_set)
  then obtain j where j: "j < length ?order" "?order ! j = edge_target e"
    by (auto simp: in_set_conv_nth)
  then have "edge_source e \<in> set (take j ?order)"
    using ord uv by (auto simp: ordered_def)
  then obtain i where i: "i < j" "?order ! i = edge_source e"
    by (auto simp: in_set_conv_nth)
  have split: "runNodes env p ?order [] =
               (case runNodes env p (take j ?order) [] of
                  Inl err \<Rightarrow> Inl err
                | Inr nr \<Rightarrow> runNodes env p (drop j ?order) nr)"
    using runNodes_append[of env p "take j ?order" "drop j ?order" "[]"] by simp
  have stored: "edge_source e \<in> fst ` set nr"
    if "edge_source e \<in> node_id ` set (nodes p)" "runNodes env p (take j ?order) [] = Inr nr" for nr
    using runNodes_keys[OF that(2)] that(1) \<open>edge_source e \<in> set (take j ?order)\<close> by auto
  show ?thesis
    using topologicalSort_set(2)[of p "reachableNodes p"] i j split stored by blast
qed

theorem topologicalSort_respects_edges_witness:
  "acyclic (predRel (edges scenarioPipeline) (reachableNodes scenarioPipeline))
   \<and> mkEdge ''flt'' ''agg'' None \<in> set (edges scenarioPipeline)
   \<and> topologicalSort scenarioPipeline (reachableNodes scenarioPipeline) = [''src'', ''flt'', ''agg'']
   \<and> (\<exists>i j. i < j \<and> j < 3 \<and> [''src'', ''flt'', ''agg''] ! i = ''flt''
          \<and> [''src'', ''flt'', ''agg''] ! j = ''agg'')"
proof -
  have ac: "acyclic (predRel (edges scenarioPipeline) (reachableNodes scenarioPipeline))"
  proof (rule acyclic_by_rank[where f = scenarioRank])
    fix u v assume "(u, v) \<in> predRel (edges scenarioPipeline) (reachableNodes scenarioPipeline)"
    then have "(u, v) \<in> edgeRel (edges scenarioPipeline)" by (simp add: predRel_def)
    then show "scenarioRank u < scenarioRank v"
      by (auto simp: edgeRel_def scenarioPipeline_def mkPipeline_def mkEdge_def scenarioRank_def)
  qed
  have e: "mkEdge ''flt'' ''agg'' None \<in> set (edges scenarioPipeline)"
    by (simp add: scenarioPipeline_def mkPipeline_def)
  have s: "edge_source (mkEdge ''flt'' ''agg'' None) \<in> set (reachableNodes scenarioPipeline)"
    and t: "edge_target (mkEdge ''flt'' ''agg'' None) \<in> set (reachableNodes scenarioPipeline)"
    by (simp_all add: reach_scenario mkEdge_def)
  have o: "topologicalSort scenarioPipeline (reachableNodes scenarioPipeline) = [''src'', ''flt'', ''agg'']"
    by (simp add: reach_scenario topo_scenario)
  from topologicalSort_respects_edges[OF ac e s t, of demoPlatform]
  obtain i j where "i < j" "j < length (topologicalSort scenarioPipeline (reachableNodes scenarioPipeline))"
     "topologicalSort scenarioPipeline (reachableNodes scenarioPipeline) ! i
        = edge_source (mkEdge ''flt'' ''agg'' None)"
     "topologicalSort scenarioPipeline (reachableNodes scenarioPipeline) ! j
        = edge_target (mkEdge ''flt'' ''agg'' None)"
    by blast
  then have "i < j \<and> j < 3 \<and> [''src'', ''flt'', ''agg''] ! i = ''flt''
          \<and> [''src'', ''flt'', ''agg''] ! j = ''agg''"
    unfolding o by (simp add: mkEdge_def)
  then have "\<exists>i j. i < j \<and> j < 3 \<and> [''src'', ''flt'', ''agg''] ! i = ''flt''
          \<and> [''src'', ''flt'', ''agg''] ! j = ''agg''"
    by blast
  then show ?thesis using ac e o by blast
qed

section \<open>Re-execution with the cache\<close>

lemma getPipelineExecution_frame:
  "config (snd (getPipelineExecution env w pid h)) = config w"
  by (auto simp: getPipelineExecution_def now_def Let_def split: option.splits)

lemma execute_miss_success:
  assumes "runPipeline env p = Inr (nr, leafs)" "\<not> cached (fst (execute env w p True))"
  shows "\<exists>w3 t. execute env w p True =
            (successResult p nr leafs t,
             cachePipelineExecution env w3 (pipeline_id p) (calculatePipelineHash env p)
               (ownEntries nr) leafs t)
          \<and> config w3 = config w"
proof -
  obtain hit w2 where g: "getPipelineExecution env (snd (now env w)) (pipeline_id p)
      (calculatePipelineHash env p) = (hit, w2)"
    by (cases "getPipelineExecution env (snd (now env w)) (pipeline_id p) (calculatePipelineHash env p)")
  have c2: "config w2 = config w"
    using getPipelineExecution_frame[of env "snd (now env w)" "pipeline_id p" "calculatePipelineHash env p"] g
    by (simp add: now_def)
  have "hit = None"
    using assms(2) g by (cases hit) (auto simp: execute_def Let_def cachedResult_def split: prod.splits)
  then have "execute env w p True =
            (successResult p nr leafs (dateNow env (ticks w2) - dateNow env (ticks w)),
             cachePipelineExecution env (w2\<lparr>ticks := Suc (ticks w2)\<rparr>) (pipeline_id p)
               (calculatePipelineHash env p) (ownEntries nr) leafs
               (dateNow env (ticks w2) - dateNow env (ticks w)))"
    using assms(1) g
    by (simp add: execute_def Let_def now_def)
  moreover have "config (w2\<lparr>ticks := Suc (ticks w2)\<rparr>) = config w"
    using c2 by simp
  ultimately show ?thesis by blast
qed

lemma execute_hit:
  assumes "map_of (pipelineExecutionCache w) (pipeline_id p) = Some e"
    and "\<not> dateNow env (Suc (ticks w)) - timestamp e > ttl e"
    and "pec_pipelineHash (entry_data e) = calculatePipelineHash env p"
  shows "fst (execute env w p True) = cachedResult p (entry_data e)"
  using assms by (simp add: execute_def now_def getPipelineExecution_def Let_def)

lemma execute_stale_hash:
  assumes "map_of (pipelineExecutionCache w) (pipeline_id p) = Some e"
    and "pec_pipelineHash (entry_data e) \<noteq> calculatePipelineHash env p"
  shows "\<not> cached (fst (execute env w p True))"
  using assms
  by (auto simp: execute_def now_def getPipelineExecution_def Let_def errorResult_def
      successResult_def split: sum.splits prod.splits)

lemma normalize_cosmetic:
  "normalize (p\<lparr>nodes := (nodes p)[i := (nodes p ! i)\<lparr>node_label := lab, node_position := pos\<rparr>]\<rparr>)
     = normalize p"
proof (cases "i < length (nodes p)")
  case True
  then show ?thesis
    by (simp add: normalize_def map_update list_update_same_conv)
next
  case False
  then show ?thesis by (simp add: normalize_def list_update_beyond)
qed

lemma jsonContent_nodes:
  "fst (jsonContent (normalize p))
     = map (\<lambda>n. (node_id n, node_type n, jsonConfig (node_config n))) (nodes p)"
  by (simp add: jsonContent_def normalize_def)

lemma jsonContent_config:
  assumes "i < length (nodes p)" "jsonConfig c \<noteq> jsonConfig (node_config (nodes p ! i))"
  shows "jsonContent (normalize (p\<lparr>nodes := (nodes p)[i := (nodes p ! i)\<lparr>node_config := c\<rparr>]\<rparr>))
           \<noteq> jsonContent (normalize p)"
proof
  assume "jsonContent (normalize (p\<lparr>nodes := (nodes p)[i := (nodes p ! i)\<lparr>node_config := c\<rparr>]\<rparr>))
            = jsonContent (normalize p)"
  then have "fst (jsonContent (normalize (p\<lparr>nodes := (nodes p)[i := (nodes p ! i)\<lparr>node_config := c\<rparr>]\<rparr>)))
            = fst (jsonContent (normalize p))"
    by simp
  then have "map (\<lambda>n. (node_id n, node_type n, jsonConfig (node_config n)))
               ((nodes p)[i := (nodes p ! i)\<lparr>node_config := c\<rparr>])
           = map (\<lambda>n. (node_id n, node_type n, jsonConfig (node_config n))) (nodes p)"
    by (simp add: jsonContent_nodes)
  then have "map (\<lambda>n. (node_id n, node_type n, jsonConfig (node_config n)))
               ((nodes p)[i := (nodes p ! i)\<lparr>node_config := c\<rparr>]) ! i
           = map (\<lambda>n. (node_id n, node_type n, jsonConfig (node_config n))) (nodes p) ! i"
    by simp
  then show False using assms by simp
qed

lemma limitLeafResults_within_cap:
  assumes "\<forall>l \<in> set leafs. int (length (leaf_data l)) \<le> maxExecutionResultRows cfg"
  shows "limitLeafResults cfg leafs = leafs"
proof -
  have "slice0 (leaf_data l) (maxExecutionResultRows cfg) = leaf_data l" if "l \<in> set leafs" for l
  proof -
    have "int (length (leaf_data l)) \<le> maxExecutionResultRows cfg" using assms that by blast
    then show ?thesis by (simp add: slice0_def)
  qed
  then show ?thesis
    unfolding limitLeafResults_def by (induction leafs) auto
qed

lemma bigPlatform_simps:
  "getDatabaseData bigPlatform d a b = Inr bigRows"
  "dateNow bigPlatform k = int k"
  by (simp_all add: bigPlatform_def demoPlatform_def js_runtime.extend_def platform.fields_def)

lemma runPipeline_big:
  "runPipeline bigPlatform bigPipeline =
     Inr ([(''src'', bigRows)],
          [\<lparr> leaf_nodeId = ''src'', leaf_nodeLabel = ''src'', leaf_nodeType = ''dataSource'',
             leaf_data = bigRows \<rparr>])"
proof -
  have r: "reachableNodes bigPipeline = [''src'']"
    by (simp add: reachableNodes_def bigPipeline_def mkPipeline_def dataSourceNodes_def
        mkNode_def findReachableNodes_def setAdd_def)
  have t: "topologicalSort bigPipeline [''src''] = [''src'']"
    by (simp add: topologicalSort_def noIncomingEdges_def bigPipeline_def mkPipeline_def mkNode_def)
  have l: "findLeafNodes bigPipeline [''src''] = [''src'']"
    by (simp add: findLeafNodes_def bigPipeline_def mkPipeline_def)
  have n: "runNodes bigPlatform bigPipeline [''src''] [] = Inr [(''src'', bigRows)]"
    by (simp add: bigPipeline_def mkPipeline_def mkNode_def emptyConfig_def executeNode_def
        executeDataSource_def truthyStr_def bigPlatform_simps)
  have c: "collectLeafResults bigPipeline [(''src'', bigRows)] [''src'']
      = Inr [\<lparr> leaf_nodeId = ''src'', leaf_nodeLabel = ''src'', leaf_nodeType = ''dataSource'',
             leaf_data = bigRows \<rparr>]"
    by (simp add: bigPipeline_def mkPipeline_def mkNode_def resultOf_def)
  have ds: "length (dataSourceNodes bigPipeline) \<noteq> 0"
    by (simp add: dataSourceNodes_def bigPipeline_def mkPipeline_def mkNode_def)
  show ?thesis
    unfolding runPipeline_def using ds
    by (simp add: r t l n c del: runNodes.simps collectLeafResults.simps)
qed

lemma first_big:
  "execute bigPlatform freshWorld bigPipeline True =
     (successResult bigPipeline [(''src'', bigRows)]
        [\<lparr> leaf_nodeId = ''src'', leaf_nodeLabel = ''src'', leaf_nodeType = ''dataSource'',
           leaf_data = bigRows \<rparr>] 1,
      \<lparr> config = DEFAULT_CACHE_CONFIG,
        pipelineExecutionCache =
          [(''p1'',
            \<lparr> entry_data =
                \<lparr> pec_pipelineId = ''p1'',
                  pec_pipelineHash = calculatePipelineHash bigPlatform bigPipeline,
                  pec_nodeResults = [(''src'', bigRows)],
                  pec_leafResults =
                    [\<lparr> leaf_nodeId = ''src'', leaf_nodeLabel = ''src'',
                       leaf_nodeType = ''dataSource'', leaf_data = take 1000 bigRows \<rparr>],
                  pec_executionTime = 1, cachedAt = 2 \<rparr>,
              timestamp = 3, ttl = 300000 \<rparr>)],
        ticks = 4 \<rparr>)"
proof -
  have pid: "pipeline_id bigPipeline = ''p1''"
    by (simp add: bigPipeline_def mkPipeline_def)
  have len: "length bigRows = 1001" by (simp add: bigRows_def)
  have s1: "slice0 bigRows (maxNodeResultRows DEFAULT_CACHE_CONFIG) = bigRows"
    by (simp add: slice0_def DEFAULT_CACHE_CONFIG_def len)
  have s2: "slice0 bigRows (maxExecutionResultRows DEFAULT_CACHE_CONFIG) = take 1000 bigRows"
    by (simp add: slice0_def DEFAULT_CACHE_CONFIG_def)
  have mx: "maxCacheEntries DEFAULT_CACHE_CONFIG = 100"
    "pipelineExecutionTTL DEFAULT_CACHE_CONFIG = 300000"
    by (simp_all add: DEFAULT_CACHE_CONFIG_def)
  have own: "ownEntries [(''src'', bigRows)] = [(''src'', bigRows)]"
    by (simp add: ownEntries_def)
  show ?thesis
    by (simp add: execute_def now_def getPipelineExecution_def freshWorld_def runPipeline_big
        cachePipelineExecution_def limitNodeResults_def limitLeafResults_def s1 s2 mx pid own
        enforceMaxEntries_def bigPlatform_simps Let_def)
qed

lemma second_big:
  "fst (execute bigPlatform (snd (execute bigPlatform freshWorld bigPipeline True)) bigPipeline True)
     = cachedResult bigPipeline
         \<lparr> pec_pipelineId = ''p1'',
           pec_pipelineHash = calculatePipelineHash bigPlatform bigPipeline,
           pec_nodeResults = [(''src'', bigRows)],
           pec_leafResults =
             [\<lparr> leaf_nodeId = ''src'', leaf_nodeLabel = ''src'',
                leaf_nodeType = ''dataSource'', leaf_data = take 1000 bigRows \<rparr>],
           pec_executionTime = 1, cachedAt = 2 \<rparr>"
proof -
  have pid: "pipeline_id bigPipeline = ''p1''"
    by (simp add: bigPipeline_def mkPipeline_def)
  let ?d = "\<lparr> pec_pipelineId = ''p1'',
           pec_pipelineHash = calculatePipelineHash bigPlatform bigPipeline,
           pec_nodeResults = [(''src'', bigRows)],
           pec_leafResults =
             [\<lparr> leaf_nodeId = ''src'', leaf_nodeLabel = ''src'',
                leaf_nodeType = ''dataSource'', leaf_data = take 1000 bigRows \<rparr>],
           pec_executionTime = 1, cachedAt = 2 \<rparr>"
  let ?e = "\<lparr> entry_data = ?d, timestamp = 3, ttl = 300000 \<rparr>"
  let ?w = "\<lparr> config = DEFAULT_CACHE_CONFIG, pipelineExecutionCache = [(''p1'', ?e)], ticks = 4 \<rparr>"
  have w: "snd (execute bigPlatform freshWorld bigPipeline True) = ?w"
    by (simp only: first_big snd_conv)
  have l: "map_of (pipelineExecutionCache ?w) (pipeline_id bigPipeline) = Some ?e"
    by (simp add: pid)
  have t: "\<not> dateNow bigPlatform (Suc (ticks ?w)) - timestamp ?e > ttl ?e"
    by (simp add: bigPlatform_simps)
  have h: "pec_pipelineHash (entry_data ?e) = calculatePipelineHash bigPlatform bigPipeline"
    by simp
  have "fst (execute bigPlatform ?w bigPipeline True) = cachedResult bigPipeline (entry_data ?e)"
    using l t h by (rule execute_hit)
  then show ?thesis by (simp only: w) simp
qed

lemma execute_first:
  assumes "pipelineExecutionCache w = []" "runPipeline env p = Inr (nr, leafs)"
    and "1 \<le> maxCacheEntries (config w)"
  shows "execute env w p True =
     (successResult p nr leafs (dateNow env (Suc (ticks w)) - dateNow env (ticks w)),
      w\<lparr>ticks := ticks w + 4,
        pipelineExecutionCache :=
          [(pipeline_id p,
            \<lparr> entry_data =
                \<lparr> pec_pipelineId = pipeline_id p,
                  pec_pipelineHash = calculatePipelineHash env p,
                  pec_nodeResults = limitNodeResults (config w) (ownEntries nr),
                  pec_leafResults = limitLeafResults (config w) leafs,
                  pec_executionTime = dateNow env (Suc (ticks w)) - dateNow env (ticks w),
                  cachedAt = dateNow env (ticks w + 2) \<rparr>,
              timestamp = dateNow env (ticks w + 3),
              ttl = pipelineExecutionTTL (config w) \<rparr>)]\<rparr>)"
  using assms
  by (simp add: execute_def now_def getPipelineExecution_def cachePipelineExecution_def
      enforceMaxEntries_def Let_def eval_nat_numeral)

lemma demoPlatform_clock: "dateNow demoPlatform k = int k"
  by (simp add: demoPlatform_def js_runtime.extend_def platform.fields_def)

lemma demoPlatform_digest:
  "digest demoPlatform nf
     = concat (map (\<lambda>(i, t, c). i @ ''/'' @ (case customCode c of None \<Rightarrow> [] | Some s \<Rightarrow> s)) (fst nf))"
  by (simp add: demoPlatform_def js_runtime.extend_def platform.fields_def)

lemma freshWorld_simps:
  "pipelineExecutionCache freshWorld = []" "1 \<le> maxCacheEntries (config freshWorld)"
  "ticks freshWorld = 0" "pipelineExecutionTTL (config freshWorld) = 300000"
  "maxExecutionResultRows (config freshWorld) = 1000"
  by (simp_all add: freshWorld_def DEFAULT_CACHE_CONFIG_def)

text \<open>The scenario with the filter's comparison value replaced.\<close>

lemma withFilterValue_graph:
  "reachableNodes (withFilterValue v) = [''src'', ''flt'', ''agg'']"
  "topologicalSort (withFilterValue v) [''src'', ''flt'', ''agg''] = [''src'', ''flt'', ''agg'']"
  "findLeafNodes (withFilterValue v) [''src'', ''flt'', ''agg''] = [''agg'']"
  "length (dataSourceNodes (withFilterValue v)) \<noteq> 0"
  "pipeline_id (withFilterValue v) = ''p1''"
  by (simp_all add: withFilterValue_def reachableNodes_def scenarioPipeline_def mkPipeline_def
      dataSourceNodes_def mkNode_def mkEdge_def findReachableNodes_def setAdd_def
      topologicalSort_def noIncomingEdges_def findLeafNodes_def)

lemma runPipeline_null:
  "runPipeline demoPlatform nullScenario =
     Inr ([(''src'', scenarioRows), (''flt'', scenarioRows),
           (''agg'', [[(''total'', JNum (Num 6))]])],
          [\<lparr> leaf_nodeId = ''agg'', leaf_nodeLabel = ''agg'', leaf_nodeType = ''aggregate'',
             leaf_data = [[(''total'', JNum (Num 6))]] \<rparr>])"
proof -
  have run: "runNodes demoPlatform (withFilterValue JNull) [''src'', ''flt'', ''agg''] [] =
     Inr [(''src'', scenarioRows), (''flt'', scenarioRows),
           (''agg'', [[(''total'', JNum (Num 6))]])]"
    using demoPlatform_db1
    by (simp add: withFilterValue_def scenarioPipeline_def mkPipeline_def mkNode_def mkEdge_def
        emptyConfig_def
        executeNode_def executeDataSource_def truthyStr_def getNodeInputData_def
        executeFilter_def executeAggregate_def singleInput_def resultOf_def
        DataTransform_filter_def testCondition_def getField_def scenarioRows_def
        DataTransform_aggregate_def addAggregations_def performAggregation_def
        aggValues_def isNullish_def sumValues_def)
  have leafs: "collectLeafResults (withFilterValue JNull)
       [(''src'', scenarioRows), (''flt'', scenarioRows),
           (''agg'', [[(''total'', JNum (Num 6))]])] [''agg'']
     = Inr [\<lparr> leaf_nodeId = ''agg'', leaf_nodeLabel = ''agg'', leaf_nodeType = ''aggregate'',
             leaf_data = [[(''total'', JNum (Num 6))]] \<rparr>]"
    by (simp add: withFilterValue_def scenarioPipeline_def mkPipeline_def mkNode_def resultOf_def)
  show ?thesis
    unfolding runPipeline_def nullScenario_def using withFilterValue_graph(4)[of JNull]
    by (simp add: withFilterValue_graph run leafs del: runNodes.simps collectLeafResults.simps)
qed

lemma runPipeline_nan:
  "runPipeline demoPlatform nanScenario =
     Inr ([(''src'', scenarioRows), (''flt'', []),
           (''agg'', [[(''total'', JNum (Num 0))]])],
          [\<lparr> leaf_nodeId = ''agg'', leaf_nodeLabel = ''agg'', leaf_nodeType = ''aggregate'',
             leaf_data = [[(''total'', JNum (Num 0))]] \<rparr>])"
proof -
  have run: "runNodes demoPlatform (withFilterValue (JNum NaN)) [''src'', ''flt'', ''agg''] [] =
     Inr [(''src'', scenarioRows), (''flt'', []),
           (''agg'', [[(''total'', JNum (Num 0))]])]"
    using demoPlatform_db1
    by (simp add: withFilterValue_def scenarioPipeline_def mkPipeline_def mkNode_def mkEdge_def
        emptyConfig_def
        executeNode_def executeDataSource_def truthyStr_def getNodeInputData_def
        executeFilter_def executeAggregate_def singleInput_def resultOf_def
        DataTransform_filter_def testCondition_def getField_def scenarioRows_def
        DataTransform_aggregate_def addAggregations_def performAggregation_def
        aggValues_def isNullish_def sumValues_def)
  have leafs: "collectLeafResults (withFilterValue (JNum NaN))
       [(''src'', scenarioRows), (''flt'', []),
           (''agg'', [[(''total'', JNum (Num 0))]])] [''agg'']
     = Inr [\<lparr> leaf_nodeId = ''agg'', leaf_nodeLabel = ''agg'', leaf_nodeType = ''aggregate'',
             leaf_data = [[(''total'', JNum (Num 0))]] \<rparr>]"
    by (simp add: withFilterValue_def scenarioPipeline_def mkPipeline_def mkNode_def resultOf_def)
  show ?thesis
    unfolding runPipeline_def nanScenario_def using withFilterValue_graph(4)[of "JNum NaN"]
    by (simp add: withFilterValue_graph run leafs del: runNodes.simps collectLeafResults.simps)
qed

lemma nan_null_same_content:
  "jsonContent (normalize nanScenario) = jsonContent (normalize nullScenario)"
  by (simp add: jsonContent_def normalize_def nanScenario_def nullScenario_def withFilterValue_def
      scenarioPipeline_def mkPipeline_def mkNode_def mkEdge_def emptyConfig_def jsonConfig_def)

lemma nan_after_null:
  "fst (execute demoPlatform (snd (execute demoPlatform freshWorld nullScenario True))
          nanScenario True)
     = cachedResult nanScenario
         \<lparr> pec_pipelineId = ''p1'',
           pec_pipelineHash = calculatePipelineHash demoPlatform nullScenario,
           pec_nodeResults =
             limitNodeResults (config freshWorld)
               (ownEntries [(''src'', scenarioRows), (''flt'', scenarioRows),
                            (''agg'', [[(''total'', JNum (Num 6))]])]),
           pec_leafResults =
             [\<lparr> leaf_nodeId = ''agg'', leaf_nodeLabel = ''agg'', leaf_nodeType = ''aggregate'',
                leaf_data = [[(''total'', JNum (Num 6))]] \<rparr>],
           pec_executionTime = 1, cachedAt = 2 \<rparr>"
proof -
  let ?d = "\<lparr> pec_pipelineId = ''p1'',
           pec_pipelineHash = calculatePipelineHash demoPlatform nullScenario,
           pec_nodeResults =
             limitNodeResults (config freshWorld)
               (ownEntries [(''src'', scenarioRows), (''flt'', scenarioRows),
                            (''agg'', [[(''total'', JNum (Num 6))]])]),
           pec_leafResults =
             [\<lparr> leaf_nodeId = ''agg'', leaf_nodeLabel = ''agg'', leaf_nodeType = ''aggregate'',
                leaf_data = [[(''total'', JNum (Num 6))]] \<rparr>],
           pec_executionTime = 1, cachedAt = 2 \<rparr>"
  let ?e = "\<lparr> entry_data = ?d, timestamp = 3, ttl = 300000 \<rparr>"
  let ?w1 = "snd (execute demoPlatform freshWorld nullScenario True)"
  have pid: "pipeline_id nullScenario = ''p1''" "pipeline_id nanScenario = ''p1''"
    by (simp_all add: nullScenario_def nanScenario_def withFilterValue_graph)
  note first = execute_first[OF freshWorld_simps(1) runPipeline_null freshWorld_simps(2)]
  have l: "map_of (pipelineExecutionCache ?w1) (pipeline_id nanScenario) = Some ?e"
    by (simp add: first pid freshWorld_simps demoPlatform_clock limitLeafResults_def slice0_def)
  have tk: "ticks ?w1 = 4" by (simp add: first freshWorld_simps)
  have t: "\<not> dateNow demoPlatform (Suc (ticks ?w1)) - timestamp ?e > ttl ?e"
    by (simp add: tk demoPlatform_clock)
  have h: "pec_pipelineHash (entry_data ?e) = calculatePipelineHash demoPlatform nanScenario"
    by (simp add: calculatePipelineHash_def nan_null_same_content)
  have "fst (execute demoPlatform ?w1 nanScenario True) = cachedResult nanScenario (entry_data ?e)"
    using l t h by (rule execute_hit)
  then show ?thesis by simp
qed

text \<open>
  C4, as stated, fails in two ways. A source of 1001 rows under the default
  configuration gives a leaf result of 1001 rows on the first call and, from the cache,
  of 1000 rows on the second. And a change of a node's configuration need not force a
  recomputation: the scenario whose filter compares with \<open>null\<close> is computed and cached
  (total 6); with the comparison value changed to \<open>NaN\<close> the JSON text that is hashed is
  the same, so the next call is served from the cache and returns total 6, where a
  computation of the changed pipeline gives total 0.
\<close>

theorem cached_reexecution_counterexample:
  "cached (fst (execute bigPlatform (snd (execute bigPlatform freshWorld bigPipeline True))
       bigPipeline True))
   \<and> map (\<lambda>l. length (leaf_data l))
        (the (leafResults (fst (execute bigPlatform freshWorld bigPipeline True)))) = [1001]
   \<and> map (\<lambda>l. length (leaf_data l))
        (the (leafResults (fst (execute bigPlatform
            (snd (execute bigPlatform freshWorld bigPipeline True)) bigPipeline True)))) = [1000]
   \<and> leafResults (fst (execute bigPlatform (snd (execute bigPlatform freshWorld bigPipeline True))
         bigPipeline True))
       \<noteq> leafResults (fst (execute bigPlatform freshWorld bigPipeline True))
   \<and> cached (fst (execute demoPlatform freshWorld nullScenario True)) = False
   \<and> nanScenario
       = nullScenario\<lparr>nodes := (nodes nullScenario)
           [1 := (nodes nullScenario ! 1)\<lparr>node_config :=
              emptyConfig\<lparr>conditions :=
                Some [\<lparr>fc_field = ''a'', fc_operator = ''gt'', fc_value = JNum NaN\<rparr>]\<rparr>\<rparr>]\<rparr>
   \<and> node_config (nodes nanScenario ! 1) \<noteq> node_config (nodes nullScenario ! 1)
   \<and> jsonContent (normalize nanScenario) = jsonContent (normalize nullScenario)
   \<and> cached (fst (execute demoPlatform (snd (execute demoPlatform freshWorld nullScenario True))
         nanScenario True))
   \<and> map leaf_data (the (leafResults (fst (execute demoPlatform
         (snd (execute demoPlatform freshWorld nullScenario True)) nanScenario True))))
       = [[[(''total'', JNum (Num 6))]]]
   \<and> map leaf_data (the (leafResults (fst (execute demoPlatform freshWorld nanScenario False))))
       = [[[(''total'', JNum (Num 0))]]]"
proof -
  have len: "length bigRows = 1001" by (simp add: bigRows_def)
  have a: "map (\<lambda>l. length (leaf_data l))
        (the (leafResults (fst (execute bigPlatform freshWorld bigPipeline True)))) = [1001]"
    by (simp add: first_big successResult_def len)
  have b: "map (\<lambda>l. length (leaf_data l))
        (the (leafResults (fst (execute bigPlatform
            (snd (execute bigPlatform freshWorld bigPipeline True)) bigPipeline True)))) = [1000]"
    by (simp add: second_big cachedResult_def len)
  from a b have c: "leafResults (fst (execute bigPlatform (snd (execute bigPlatform freshWorld bigPipeline True))
         bigPipeline True))
       \<noteq> leafResults (fst (execute bigPlatform freshWorld bigPipeline True))"
    by auto
  have d: "cached (fst (execute bigPlatform
      (snd (execute bigPlatform freshWorld bigPipeline True)) bigPipeline True))"
    by (simp add: second_big cachedResult_def)
  have e: "cached (fst (execute demoPlatform freshWorld nullScenario True)) = False"
    by (simp add: execute_first[OF freshWorld_simps(1) runPipeline_null freshWorld_simps(2)]
        successResult_def)
  have f: "nanScenario
       = nullScenario\<lparr>nodes := (nodes nullScenario)
           [1 := (nodes nullScenario ! 1)\<lparr>node_config :=
              emptyConfig\<lparr>conditions :=
                Some [\<lparr>fc_field = ''a'', fc_operator = ''gt'', fc_value = JNum NaN\<rparr>]\<rparr>\<rparr>]\<rparr>"
    by (simp add: nanScenario_def nullScenario_def withFilterValue_def scenarioPipeline_def
        mkPipeline_def mkNode_def)
  have g: "node_config (nodes nanScenario ! 1) \<noteq> node_config (nodes nullScenario ! 1)"
    by (simp add: nanScenario_def nullScenario_def withFilterValue_def scenarioPipeline_def
        mkPipeline_def mkNode_def emptyConfig_def)
  have h: "cached (fst (execute demoPlatform (snd (execute demoPlatform freshWorld nullScenario True))
         nanScenario True))"
    by (simp add: nan_after_null cachedResult_def)
  have i: "map leaf_data (the (leafResults (fst (execute demoPlatform
         (snd (execute demoPlatform freshWorld nullScenario True)) nanScenario True))))
       = [[[(''total'', JNum (Num 6))]]]"
    by (simp add: nan_after_null cachedResult_def)
  have j: "map leaf_data (the (leafResults (fst (execute demoPlatform freshWorld nanScenario False))))
       = [[[(''total'', JNum (Num 0))]]]"
    by (simp add: execute_def now_def runPipeline_nan successResult_def)
  show ?thesis
    using a b c d e f g h i j nan_null_same_content by (intro conjI)
qed

text \<open>
  C4, amended. Let a first call with the cache enabled compute the pipeline afresh and
  succeed, and let the entry it wrote still be stored and not expired when the second
  call looks it up. Then the second call reports \<open>cached\<close> with status success and the
  execution time recorded by the first call, and its leaf results are those of the
  first call with every data array cut to the leaf-result row cap, hence identical
  when no leaf result exceeds the cap. Changing only a node's label and position leaves
  the hash unchanged, and the edited pipeline is still served from the cache. In
  general a pipeline with the same id is served from the cache exactly when its hash
  equals that of the first call. Changing a node's configuration in a way that its JSON
  text records changes the text that is hashed, and the next call is then served from
  the cache only if the old and the new text, though different, have the same MD5
  digest.
\<close>

theorem cached_reexecution:
  fixes env w p
  defines "w1 \<equiv> snd (execute env w p True)"
  assumes fresh: "\<not> cached (fst (execute env w p True))"
    and ok: "status (fst (execute env w p True)) = ''success''"
    and kept: "map_of (pipelineExecutionCache w1) (pipeline_id p) = Some e"
    and alive: "dateNow env (Suc (ticks w1)) - timestamp e \<le> ttl e"
  shows
   "cached (fst (execute env w1 p True))
    \<and> status (fst (execute env w1 p True)) = ''success''
    \<and> executionTime (fst (execute env w1 p True)) = executionTime (fst (execute env w p True))
    \<and> leafResults (fst (execute env w1 p True))
        = Some (limitLeafResults (config w) (the (leafResults (fst (execute env w p True)))))
    \<and> ((\<forall>l \<in> set (the (leafResults (fst (execute env w p True)))).
            int (length (leaf_data l)) \<le> maxExecutionResultRows (config w))
         \<longrightarrow> leafResults (fst (execute env w1 p True)) = leafResults (fst (execute env w p True)))
    \<and> calculatePipelineHash env
          (p\<lparr>nodes := (nodes p)[i := (nodes p ! i)\<lparr>node_label := lab, node_position := pos\<rparr>]\<rparr>)
        = calculatePipelineHash env p
    \<and> cached (fst (execute env w1
          (p\<lparr>nodes := (nodes p)[i := (nodes p ! i)\<lparr>node_label := lab, node_position := pos\<rparr>]\<rparr>)
          True))
    \<and> (pipeline_id q = pipeline_id p \<longrightarrow>
          cached (fst (execute env w1 q True))
            = (calculatePipelineHash env q = calculatePipelineHash env p))
    \<and> (j < length (nodes p) \<and> jsonConfig c \<noteq> jsonConfig (node_config (nodes p ! j)) \<longrightarrow>
          jsonContent (normalize (p\<lparr>nodes := (nodes p)[j := (nodes p ! j)\<lparr>node_config := c\<rparr>]\<rparr>))
            \<noteq> jsonContent (normalize p)
        \<and> cached (fst (execute env w1
              (p\<lparr>nodes := (nodes p)[j := (nodes p ! j)\<lparr>node_config := c\<rparr>]\<rparr>) True))
            = (digest env (jsonContent (normalize
                 (p\<lparr>nodes := (nodes p)[j := (nodes p ! j)\<lparr>node_config := c\<rparr>]\<rparr>)))
               = digest env (jsonContent (normalize p))))"
proof -
  let ?cos = "p\<lparr>nodes := (nodes p)[i := (nodes p ! i)\<lparr>node_label := lab, node_position := pos\<rparr>]\<rparr>"
  let ?chg = "p\<lparr>nodes := (nodes p)[j := (nodes p ! j)\<lparr>node_config := c\<rparr>]\<rparr>"
  from ok fresh obtain nr leafs where run: "runPipeline env p = Inr (nr, leafs)"
    by (auto simp: execute_status split: sum.splits if_splits)
  from execute_miss_success[OF run fresh] obtain w3 t where
    first: "execute env w p True =
            (successResult p nr leafs t,
             cachePipelineExecution env w3 (pipeline_id p) (calculatePipelineHash env p)
               (ownEntries nr) leafs t)"
    and c3: "config w3 = config w"
    by blast
  have w1: "w1 = cachePipelineExecution env w3 (pipeline_id p) (calculatePipelineHash env p)
                   (ownEntries nr) leafs t"
    by (simp add: w1_def first)
  have r1: "leafResults (fst (execute env w p True)) = Some leafs"
    "executionTime (fst (execute env w p True)) = Some t"
    by (simp_all add: first successResult_def)
  note ee = cachePipelineExecution_entry[OF kept[unfolded w1]]
  have hsh: "pec_pipelineHash (entry_data e) = calculatePipelineHash env p"
    and lf: "pec_leafResults (entry_data e) = limitLeafResults (config w) leafs"
    and tm: "pec_executionTime (entry_data e) = t"
    by (simp_all add: ee c3)
  have na: "\<not> dateNow env (Suc (ticks w1)) - timestamp e > ttl e"
    using alive by simp
  have served: "cached (fst (execute env w1 q' True))
                  = (calculatePipelineHash env q' = calculatePipelineHash env p)"
    if pid: "pipeline_id q' = pipeline_id p" for q'
  proof (cases "calculatePipelineHash env q' = calculatePipelineHash env p")
    case True
    have "fst (execute env w1 q' True) = cachedResult q' (entry_data e)"
      by (rule execute_hit) (use kept na hsh True pid in simp_all)
    then show ?thesis using True by (simp add: cachedResult_def)
  next
    case False
    have "\<not> cached (fst (execute env w1 q' True))"
      by (rule execute_stale_hash[where e = e]) (use kept hsh False pid in simp_all)
    then show ?thesis using False by simp
  qed
  have second: "fst (execute env w1 p True) = cachedResult p (entry_data e)"
    using kept na hsh by (rule execute_hit)
  have hcos: "calculatePipelineHash env ?cos = calculatePipelineHash env p"
    by (simp only: calculatePipelineHash_def normalize_cosmetic)
  have ccos: "cached (fst (execute env w1 ?cos True))"
    using served[of ?cos] hcos by simp
  have chg: "jsonContent (normalize ?chg) \<noteq> jsonContent (normalize p)
        \<and> cached (fst (execute env w1 ?chg True))
            = (digest env (jsonContent (normalize ?chg)) = digest env (jsonContent (normalize p)))"
    if "j < length (nodes p)" "jsonConfig c \<noteq> jsonConfig (node_config (nodes p ! j))"
  proof -
    have ne: "jsonContent (normalize ?chg) \<noteq> jsonContent (normalize p)"
      using that by (rule jsonContent_config)
    have "cached (fst (execute env w1 ?chg True))
            = (digest env (jsonContent (normalize ?chg)) = digest env (jsonContent (normalize p)))"
      using served[of ?chg] by (simp add: calculatePipelineHash_def)
    with ne show ?thesis by simp
  qed
  have same: "leafResults (fst (execute env w1 p True)) = leafResults (fst (execute env w p True))"
    if "\<forall>l \<in> set (the (leafResults (fst (execute env w p True)))).
            int (length (leaf_data l)) \<le> maxExecutionResultRows (config w)"
    using that limitLeafResults_within_cap[of leafs "config w"]
    by (simp add: second cachedResult_def lf r1)
  have base: "cached (fst (execute env w1 p True))
    \<and> status (fst (execute env w1 p True)) = ''success''
    \<and> executionTime (fst (execute env w1 p True)) = executionTime (fst (execute env w p True))
    \<and> leafResults (fst (execute env w1 p True))
        = Some (limitLeafResults (config w) (the (leafResults (fst (execute env w p True)))))"
    by (simp add: second cachedResult_def lf tm r1)
  show ?thesis
    using base same hcos ccos served[of q] chg by blast
qed

theorem cached_reexecution_witness:
  "\<not> cached (fst (execute demoPlatform freshWorld scenarioPipeline True))
   \<and> status (fst (execute demoPlatform freshWorld scenarioPipeline True)) = ''success''
   \<and> cached (fst (execute demoPlatform
        (snd (execute demoPlatform freshWorld scenarioPipeline True)) scenarioPipeline True))
   \<and> leafResults (fst (execute demoPlatform
        (snd (execute demoPlatform freshWorld scenarioPipeline True)) scenarioPipeline True))
       = leafResults (fst (execute demoPlatform freshWorld scenarioPipeline True))
   \<and> executionTime (fst (execute demoPlatform
        (snd (execute demoPlatform freshWorld scenarioPipeline True)) scenarioPipeline True))
       = executionTime (fst (execute demoPlatform freshWorld scenarioPipeline True))
   \<and> cached (fst (execute demoPlatform
        (snd (execute demoPlatform freshWorld scenarioPipeline True)) movedScenario True))
   \<and> jsonContent (normalize editedScenario) \<noteq> jsonContent (normalize scenarioPipeline)
   \<and> \<not> cached (fst (execute demoPlatform
        (snd (execute demoPlatform freshWorld scenarioPipeline True)) editedScenario True))"
proof -
  let ?w1 = "snd (execute demoPlatform freshWorld scenarioPipeline True)"
  let ?nr = "[(''src'', scenarioRows),
           (''flt'', [[(''a'', JNum (Num 2))], [(''a'', JNum (Num 3))]]),
           (''agg'', [[(''total'', JNum (Num 5))]])]"
  let ?leafs = "[\<lparr> leaf_nodeId = ''agg'', leaf_nodeLabel = ''agg'', leaf_nodeType = ''aggregate'',
             leaf_data = [[(''total'', JNum (Num 5))]] \<rparr>]"
  let ?e = "\<lparr> entry_data =
                \<lparr> pec_pipelineId = pipeline_id scenarioPipeline,
                  pec_pipelineHash = calculatePipelineHash demoPlatform scenarioPipeline,
                  pec_nodeResults = limitNodeResults (config freshWorld) (ownEntries ?nr),
                  pec_leafResults = limitLeafResults (config freshWorld) ?leafs,
                  pec_executionTime = dateNow demoPlatform (Suc (ticks freshWorld))
                                        - dateNow demoPlatform (ticks freshWorld),
                  cachedAt = dateNow demoPlatform (ticks freshWorld + 2) \<rparr>,
              timestamp = dateNow demoPlatform (ticks freshWorld + 3),
              ttl = pipelineExecutionTTL (config freshWorld) \<rparr>"
  note fw = freshWorld_simps
  note first = execute_first[OF fw(1) runPipeline_scenario[OF demoPlatform_db1] fw(2)]
  have fresh: "\<not> cached (fst (execute demoPlatform freshWorld scenarioPipeline True))"
    and ok: "status (fst (execute demoPlatform freshWorld scenarioPipeline True)) = ''success''"
    and lr: "leafResults (fst (execute demoPlatform freshWorld scenarioPipeline True)) = Some ?leafs"
    by (simp_all add: first successResult_def)
  have kept: "map_of (pipelineExecutionCache ?w1) (pipeline_id scenarioPipeline) = Some ?e"
    by (simp add: first)
  have tk: "ticks ?w1 = 4" by (simp add: first fw)
  have alive: "dateNow demoPlatform (Suc (ticks ?w1)) - timestamp ?e \<le> ttl ?e"
    by (simp add: tk demoPlatform_clock fw)
  have small: "\<forall>l \<in> set (the (leafResults (fst (execute demoPlatform freshWorld scenarioPipeline True)))).
            int (length (leaf_data l)) \<le> maxExecutionResultRows (config freshWorld)"
    by (simp add: lr fw)
  have idx: "(1::nat) < length (nodes scenarioPipeline)"
    by (simp add: scenarioPipeline_def mkPipeline_def)
  have cfg: "jsonConfig (emptyConfig\<lparr>customCode := Some ''x''\<rparr>)
               \<noteq> jsonConfig (node_config (nodes scenarioPipeline ! 1))"
    by (simp add: scenarioPipeline_def mkPipeline_def mkNode_def emptyConfig_def jsonConfig_def)
  have dg: "calculatePipelineHash demoPlatform editedScenario
              = calculatePipelineHash demoPlatform scenarioPipeline \<longleftrightarrow> False"
    by (simp add: calculatePipelineHash_def demoPlatform_digest jsonContent_def normalize_def
        editedScenario_def scenarioPipeline_def mkPipeline_def mkNode_def emptyConfig_def
        jsonConfig_def)
  have pid: "pipeline_id editedScenario = pipeline_id scenarioPipeline"
    by (simp add: editedScenario_def)
  note t = cached_reexecution[OF fresh ok kept alive, where i = 1 and lab = "''renamed''"
      and pos = "Some (3, 4)" and j = 1 and c = "emptyConfig\<lparr>customCode := Some ''x''\<rparr>"
      and q = editedScenario]
  from t have a: "cached (fst (execute demoPlatform ?w1 scenarioPipeline True))"
    and b: "executionTime (fst (execute demoPlatform ?w1 scenarioPipeline True))
       = executionTime (fst (execute demoPlatform freshWorld scenarioPipeline True))"
    and c: "cached (fst (execute demoPlatform ?w1 movedScenario True))"
    unfolding movedScenario_def by blast+
  from t small have d: "leafResults (fst (execute demoPlatform ?w1 scenarioPipeline True))
       = leafResults (fst (execute demoPlatform freshWorld scenarioPipeline True))"
    by blast
  from t pid have "cached (fst (execute demoPlatform ?w1 editedScenario True))
      = (calculatePipelineHash demoPlatform editedScenario
           = calculatePipelineHash demoPlatform scenarioPipeline)"
    by blast
  then have e: "\<not> cached (fst (execute demoPlatform ?w1 editedScenario True))"
    by (simp only: dg) simp
  from t idx cfg have f: "jsonContent (normalize editedScenario)
                            \<noteq> jsonContent (normalize scenarioPipeline)"
    unfolding editedScenario_def by blast
  show ?thesis using fresh ok a b c d e f by blast
qed

end
